theory Spec2Isabelle
  imports
    Complex_Main
    "HOL-Library.AList"
    "HOL-Library.Sublist"
    "HOL-Library.Char_ord"
    "HOL-Library.List_Lexorder"
    "HOL-Library.Word"
begin

section \<open>The JSON handler of humanlog\<close>

text \<open>
  A shallow embedding of \<^verbatim>\<open>JSONHandler\<close> (package \<^verbatim>\<open>humanlog\<close>): the methods
  \<^verbatim>\<open>clear\<close>, \<^verbatim>\<open>TryHandle\<close>, \<^verbatim>\<open>UnmarshalJSON\<close>, \<^verbatim>\<open>Prettify\<close> and \<^verbatim>\<open>joinKVs\<close>.
  Go strings are byte sequences, and so are the strings of HOL: \<open>length\<close> is \<^verbatim>\<open>len\<close>,
  \<open>take n\<close> is the slice \<^verbatim>\<open>s[:n]\<close> (for \<open>n\<close> in range; out of range the slice panics and
  the model says so).  A Go map is an association list with distinct keys; \<^verbatim>\<open>m[k]\<close> is
  \<open>map_of\<close>, \<^verbatim>\<open>m[k] = v\<close> is \<open>AList.update\<close>, \<^verbatim>\<open>delete(m, k)\<close> is \<open>AList.delete\<close>.
\<close>

subsection \<open>Values, errors, options\<close>

text \<open>
  The dynamic types an \<^verbatim>\<open>interface{}\<close> can hold after \<^verbatim>\<open>json.Unmarshal\<close>, and \<^verbatim>\<open>int64\<close>,
  which the decoder never produces but \<^verbatim>\<open>UnmarshalJSON\<close> tests for.  A \<^verbatim>\<open>float64\<close> is
  represented by the rational number it denotes (a JSON number is never a NaN or an
  infinity).
\<close>

datatype val =
    VFloat64 rat
  | VString string
  | VInt64 int
  | VBool bool
  | VNil
  | VSlice "val list"
  | VMap "(string \<times> val) list"

datatype error = JSONError | UnknownTimestamp string

datatype panic = SliceBoundsOutOfRange | NilDereference

datatype RGB = RGB "8 word" "8 word" "8 word"

text \<open>
  \<^verbatim>\<open>HandlerOptions\<close>.  The type is declared outside the sources at hand; its fields are
  the ones the handler and \<^verbatim>\<open>main.go\<close> read and write.  The methods \<^verbatim>\<open>shouldShowKey\<close>
  and \<^verbatim>\<open>shouldShowUnchanged\<close> are opaque predicates on key names, kept as two more fields.
\<close>

record HandlerOptions =
  TimeFormat :: string
  Truncates :: bool
  TruncateLength :: int
  SortLongest :: bool
  SkipUnchanged :: bool
  LightBg :: bool
  KeyRGB :: RGB
  ValRGB :: RGB
  shouldShowKey :: "string \<Rightarrow> bool"
  shouldShowUnchanged :: "string \<Rightarrow> bool"

text \<open>
  What the handler calls and does not define: the standard library (\<^verbatim>\<open>encoding/json\<close>,
  \<^verbatim>\<open>time\<close>, \<^verbatim>\<open>strings\<close>, \<^verbatim>\<open>fmt\<close>, \<^verbatim>\<open>text/tabwriter\<close>), the colour library
  \<^verbatim>\<open>rgbterm\<close>, and \<^verbatim>\<open>tryParseTime\<close> and \<^verbatim>\<open>DefaultOptions\<close> of this package.  Every
  definition below takes them as one parameter, and every theorem holds for all of
  them.  \<open>'t\<close> is the type \<^verbatim>\<open>time.Time\<close>.
  \<^item> \<open>json_Unmarshal d\<close>: the decoded object, \<open>None\<close> when \<^verbatim>\<open>json.Unmarshal\<close> returns an error;
  \<^item> \<open>tryParseTime s\<close>: the pair \<^verbatim>\<open>(time.Time, bool)\<close> that \<^verbatim>\<open>tryParseTime\<close> returns;
  \<^item> \<open>strconv_escape s\<close>: what \<^verbatim>\<open>strconv.Quote\<close> puts between the two quotes;
  \<^item> \<open>fmt_g\<close>, \<open>fmt_v\<close>: the verbs \<^verbatim>\<open>%g\<close> of a \<^verbatim>\<open>float64\<close> and \<^verbatim>\<open>%v\<close> of any other value;
  \<^item> \<open>int_of_float64_overflow v\<close>: the implementation-dependent result of converting to
    an integer type a \<^verbatim>\<open>float64\<close> that does not fit it;
  \<^item> \<open>float64 v\<close>: the \<^verbatim>\<open>float64\<close> nearest to \<open>v\<close>, which an operation of \<^verbatim>\<open>float64\<close>
    returns when its exact result is \<open>v\<close>.  Where the operation overflows to an infinity,
    \<open>float64 v\<close> is any number of that magnitude: the source only converts such a result
    to \<^verbatim>\<open>int64\<close>, which it does not fit.
\<close>

record 't ext =
  json_Unmarshal :: "string \<Rightarrow> (string \<times> val) list option"
  tryParseTime :: "string \<Rightarrow> 't \<times> bool"
  time_zero :: "'t"
  time_Unix :: "int \<Rightarrow> int \<Rightarrow> 't"
  time_Format :: "'t \<Rightarrow> string \<Rightarrow> string"
  strings_ToUpper :: "string \<Rightarrow> string"
  strconv_escape :: "string \<Rightarrow> string"
  fmt_g :: "rat \<Rightarrow> string"
  fmt_v :: "val \<Rightarrow> string"
  int_of_float64_overflow :: "rat \<Rightarrow> int"
  float64 :: "rat \<Rightarrow> rat"
  FgString :: "string \<Rightarrow> 8 word \<Rightarrow> 8 word \<Rightarrow> 8 word \<Rightarrow> string"
  BgString :: "string \<Rightarrow> 8 word \<Rightarrow> 8 word \<Rightarrow> 8 word \<Rightarrow> string"
  tabwriter :: "string \<Rightarrow> string"
  DefaultOptions :: HandlerOptions

subsection \<open>The handler\<close>

text \<open>
  \<^verbatim>\<open>JSONHandler\<close>.  The buffer is \<open>None\<close> while \<^verbatim>\<open>h.buf\<close> is \<^verbatim>\<open>nil\<close> and holds its bytes
  afterwards; \<^verbatim>\<open>h.out\<close> is the tab writer on that buffer and is \<^verbatim>\<open>nil\<close> exactly when
  the buffer is (both are unexported and set together).  The field \<^verbatim>\<open>truncKV\<close> is never
  read.  A \<^verbatim>\<open>nil\<close> map reads as the empty map.
\<close>

record 't JSONHandler =
  buf :: "string option"
  Opts :: "HandlerOptions option"
  Level :: string
  Time :: "'t"
  Message :: string
  Fields :: "(string \<times> string) list"
  last_fields :: "(string \<times> string) list"

definition clear :: "'t ext \<Rightarrow> 't JSONHandler \<Rightarrow> 't JSONHandler" where
  "clear ext h =
     h\<lparr>Level := [], Time := time_zero ext, Message := [],
       last_fields := Fields h, Fields := [],
       buf := (case buf h of None \<Rightarrow> None | Some _ \<Rightarrow> Some [])\<rparr>"

subsection \<open>Formatting verbs\<close>

definition dquote :: char where
  "dquote = CHR 0x22"

fun digits :: "nat \<Rightarrow> string" where
  "digits n =
     (if n < 10 then [''0123456789'' ! n]
      else digits (n div 10) @ [''0123456789'' ! (n mod 10)])"

declare digits.simps [simp del]

text \<open>\<^verbatim>\<open>fmt.Sprintf("%d", i)\<close>.\<close>

definition fmt_d :: "int \<Rightarrow> string" where
  "fmt_d i = (if i < 0 then CHR ''-'' # digits (nat (- i)) else digits (nat i))"

text \<open>\<^verbatim>\<open>fmt.Sprintf("%q", s)\<close>: \<^verbatim>\<open>strconv.Quote\<close>, the escaped text between two double quotes.\<close>

definition fmt_q :: "'t ext \<Rightarrow> string \<Rightarrow> string" where
  "fmt_q ext s = dquote # strconv_escape ext s @ [dquote]"

text \<open>
  The conversion \<^verbatim>\<open>int(v)\<close> (and \<^verbatim>\<open>int64(v)\<close>; \<^verbatim>\<open>int\<close> has 64 bits) of a \<^verbatim>\<open>float64\<close>: the
  fraction is discarded, truncating towards zero.
\<close>

definition trunc :: "rat \<Rightarrow> int" where
  "trunc v = (if 0 \<le> v then \<lfloor>v\<rfloor> else \<lceil>v\<rceil>)"

definition int_of_float64 :: "'t ext \<Rightarrow> rat \<Rightarrow> int" where
  "int_of_float64 ext v =
     (if - (2 ^ 63) \<le> trunc v \<and> trunc v < 2 ^ 63 then trunc v
      else int_of_float64_overflow ext v)"

text \<open>
  The constant \<^verbatim>\<open>0.000001\<close> as a \<^verbatim>\<open>float64\<close>: the double nearest to \<open>10\<^sup>-\<^sup>6\<close>, which is
  \<open>4722366482869645 / 2\<^sup>7\<^sup>2\<close>, a little below \<open>10\<^sup>-\<^sup>6\<close>.
\<close>

definition float64_0_000001 :: rat where
  "float64_0_000001 = 4722366482869645 / 2 ^ 72"

text \<open>
  The type switch in the loop of \<^verbatim>\<open>UnmarshalJSON\<close>: the display string of one value.
  \<^verbatim>\<open>math.Floor\<close> is \<open>\<lfloor>v\<rfloor>\<close>.  The difference \<^verbatim>\<open>v-math.Floor(v)\<close> is computed in
  \<^verbatim>\<open>float64\<close>; it is exact whenever \<open>v\<close> is not negative or is an integer.
\<close>

definition format_value :: "'t ext \<Rightarrow> val \<Rightarrow> string" where
  "format_value ext x =
     (case x of
        VFloat64 v \<Rightarrow>
          if v - of_int \<lfloor>v\<rfloor> < float64_0_000001 \<and> v < 1000000000
          then fmt_d (int_of_float64 ext v)
          else fmt_g ext v
      | VString s \<Rightarrow> fmt_q ext s
      | _ \<Rightarrow> fmt_v ext x)"

subsection \<open>\<^verbatim>\<open>UnmarshalJSON\<close>\<close>

text \<open>The type assertion \<^verbatim>\<open>raw[k].(string)\<close>.\<close>

definition string_at :: "(string \<times> val) list \<Rightarrow> string \<Rightarrow> string option" where
  "string_at raw k = (case map_of raw k of Some (VString s) \<Rightarrow> Some s | _ \<Rightarrow> None)"

text \<open>
  Lines 64 to 84: the timestamp.  The result is the error, if any, the handler and
  what is left of \<^verbatim>\<open>raw\<close>.  \<^verbatim>\<open>h.Time\<close> is assigned before the result of \<^verbatim>\<open>tryParseTime\<close>
  is tested.  Line 82 converts \<^verbatim>\<open>int64(f)\<close> back, subtracts and multiplies in
  \<^verbatim>\<open>float64\<close>: each of the three results is rounded.
\<close>

definition extract_time ::
  "'t ext \<Rightarrow> 't JSONHandler \<Rightarrow> (string \<times> val) list \<Rightarrow>
   error option \<times> 't JSONHandler \<times> (string \<times> val) list" where
  "extract_time ext h raw =
     (case (case string_at raw ''time'' of
              Some s \<Rightarrow> Some (s, AList.delete ''time'' raw)
            | None \<Rightarrow>
                (case string_at raw ''ts'' of
                   Some s \<Rightarrow> Some (s, AList.delete ''ts'' raw)
                 | None \<Rightarrow> None)) of
        Some (timeStr, raw1) \<Rightarrow>
          (case tryParseTime ext timeStr of
             (t, ok) \<Rightarrow>
               if \<not> ok then (Some (UnknownTimestamp timeStr), h\<lparr>Time := t\<rparr>, raw1)
               else (None, h\<lparr>Time := t\<rparr>, raw1))
      | None \<Rightarrow>
          (case map_of raw ''ts'' of
             Some (VInt64 i) \<Rightarrow> (None, h\<lparr>Time := time_Unix ext i 0\<rparr>, AList.delete ''ts'' raw)
           | Some (VFloat64 f) \<Rightarrow>
               (None,
                h\<lparr>Time := time_Unix ext (int_of_float64 ext f)
                   (int_of_float64 ext
                      (float64 ext
                         (float64 ext (f - float64 ext (of_int (int_of_float64 ext f)))
                          * 1000000000)))\<rparr>,
                AList.delete ''ts'' raw)
           | _ \<Rightarrow> (None, h, raw)))"

text \<open>Lines 85 to 89: the message.  A failed type assertion assigns the empty string.\<close>

definition extract_message ::
  "'t JSONHandler \<Rightarrow> (string \<times> val) list \<Rightarrow> 't JSONHandler \<times> (string \<times> val) list" where
  "extract_message h raw =
     (case string_at raw ''msg'' of
        Some s \<Rightarrow> (h\<lparr>Message := s\<rparr>, AList.delete ''msg'' raw)
      | None \<Rightarrow>
          (case string_at raw ''message'' of
             Some s \<Rightarrow> (h\<lparr>Message := s\<rparr>, AList.delete ''message'' raw)
           | None \<Rightarrow> (h\<lparr>Message := []\<rparr>, raw)))"

text \<open>
  Lines 91 to 100: the level.  When \<^verbatim>\<open>level\<close> holds no string, \<^verbatim>\<open>lvl\<close> is deleted
  whatever it holds.
\<close>

definition extract_level ::
  "'t JSONHandler \<Rightarrow> (string \<times> val) list \<Rightarrow> 't JSONHandler \<times> (string \<times> val) list" where
  "extract_level h raw =
     (case string_at raw ''level'' of
        Some s \<Rightarrow> (h\<lparr>Level := s\<rparr>, AList.delete ''level'' raw)
      | None \<Rightarrow>
          (case string_at raw ''lvl'' of
             Some s \<Rightarrow> (h\<lparr>Level := s\<rparr>, AList.delete ''lvl'' raw)
           | None \<Rightarrow> (h\<lparr>Level := ''????''\<rparr>, AList.delete ''lvl'' raw)))"

text \<open>
  Lines 102 to 120: every remaining pair is stored in \<^verbatim>\<open>h.Fields\<close>, which is neither
  emptied nor replaced here.  The keys of \<^verbatim>\<open>raw\<close> are distinct, so the order in which \<^verbatim>\<open>range\<close>
  visits them does not change the resulting map.
\<close>

definition set_fields ::
  "'t ext \<Rightarrow> 't JSONHandler \<Rightarrow> (string \<times> val) list \<Rightarrow> 't JSONHandler" where
  "set_fields ext h raw =
     h\<lparr>Fields := fold (\<lambda>(key, x). AList.update key (format_value ext x)) raw (Fields h)\<rparr>"

definition UnmarshalJSON ::
  "'t ext \<Rightarrow> 't JSONHandler \<Rightarrow> string \<Rightarrow> error option \<times> 't JSONHandler" where
  "UnmarshalJSON ext h d =
     (case json_Unmarshal ext d of
        None \<Rightarrow> (Some JSONError, h)
      | Some raw \<Rightarrow>
          (case extract_time ext h raw of
             (Some e, h1, raw1) \<Rightarrow> (Some e, h1)
           | (None, h1, raw1) \<Rightarrow>
               (case extract_message h1 raw1 of
                  (h2, raw2) \<Rightarrow>
                    (case extract_level h2 raw2 of
                       (h3, raw3) \<Rightarrow> (None, set_fields ext h3 raw3)))))"

subsection \<open>\<^verbatim>\<open>TryHandle\<close>\<close>

text \<open>\<^verbatim>\<open>bytes.Contains(d, sep)\<close>: \<open>sep\<close> occurs in \<open>d\<close> as a contiguous block.\<close>

fun bytes_Contains :: "string \<Rightarrow> string \<Rightarrow> bool" where
  "bytes_Contains [] sep = (sep = [])"
| "bytes_Contains (c # cs) sep = (prefix sep (c # cs) \<or> bytes_Contains cs sep)"

definition time_marker :: string where
  "time_marker = dquote # ''time'' @ [dquote, CHR '':'']"

definition ts_marker :: string where
  "ts_marker = dquote # ''ts'' @ [dquote, CHR '':'']"

definition TryHandle :: "'t ext \<Rightarrow> 't JSONHandler \<Rightarrow> string \<Rightarrow> bool \<times> 't JSONHandler" where
  "TryHandle ext h d =
     (if \<not> bytes_Contains d time_marker \<and> \<not> bytes_Contains d ts_marker then (False, h)
      else
        (case UnmarshalJSON ext h d of
           (Some err, h1) \<Rightarrow> (False, clear ext h1)
         | (None, h1) \<Rightarrow> (True, h1)))"

subsection \<open>\<^verbatim>\<open>joinKVs\<close>\<close>

text \<open>The slice expression \<^verbatim>\<open>s[:n]\<close>, which panics unless \<open>0 \<le> n \<le> len(s)\<close>.\<close>

definition slice_to :: "string \<Rightarrow> int \<Rightarrow> panic + string" where
  "slice_to s n =
     (if 0 \<le> n \<and> n \<le> int (length s) then Inr (take (nat n) s)
      else Inl SliceBoundsOutOfRange)"

text \<open>Lines 190 to 195: the value as it is shown, before it is coloured.\<close>

definition truncate_value :: "HandlerOptions \<Rightarrow> string \<Rightarrow> panic + string" where
  "truncate_value opts v =
     (if Truncates opts \<and> TruncateLength opts < int (length v)
      then (case slice_to v (TruncateLength opts) of
              Inl p \<Rightarrow> Inl p
            | Inr s \<Rightarrow> Inr (s @ ''...''))
      else Inr v)"

text \<open>Lines 188 to 197: the token of one field.\<close>

definition kv_token ::
  "'t ext \<Rightarrow> HandlerOptions \<Rightarrow> string \<Rightarrow> string \<Rightarrow> string \<Rightarrow> panic + string" where
  "kv_token ext opts sep k v =
     (case KeyRGB opts of
        RGB kr kg kb \<Rightarrow>
          (case ValRGB opts of
             RGB vr vg vb \<Rightarrow>
               (case truncate_value opts v of
                  Inl p \<Rightarrow> Inl p
                | Inr vstr \<Rightarrow> Inr (FgString ext k kr kg kb @ sep @ FgString ext vstr vr vg vb))))"

text \<open>
  Line 183: \<^verbatim>\<open>lastV, ok := h.last[k]; ok && lastV == v && !h.Opts.shouldShowUnchanged(k)\<close>,
  where \<open>lst\<close> is \<^verbatim>\<open>h.last\<close>.
\<close>

definition unchanged ::
  "HandlerOptions \<Rightarrow> (string \<times> string) list \<Rightarrow> string \<Rightarrow> string \<Rightarrow> bool" where
  "unchanged opts lst k v =
     (case map_of lst k of
        Some lastV \<Rightarrow> lastV = v \<and> \<not> shouldShowUnchanged opts k
      | None \<Rightarrow> False)"

text \<open>
  The loop of lines 177 to 198 over the entries of \<^verbatim>\<open>h.Fields\<close>, with the slice \<^verbatim>\<open>kv\<close>
  built so far.
\<close>

fun joinKVs_loop ::
  "'t ext \<Rightarrow> HandlerOptions \<Rightarrow> bool \<Rightarrow> string \<Rightarrow> (string \<times> string) list \<Rightarrow>
   (string \<times> string) list \<Rightarrow> string list \<Rightarrow> panic + string list" where
  "joinKVs_loop ext opts skipUnchanged sep lst [] kv = Inr kv"
| "joinKVs_loop ext opts skipUnchanged sep lst ((k, v) # rest) kv =
     (if \<not> shouldShowKey opts k then joinKVs_loop ext opts skipUnchanged sep lst rest kv
      else if skipUnchanged \<and> unchanged opts lst k v
      then joinKVs_loop ext opts skipUnchanged sep lst rest kv
      else
        (case kv_token ext opts sep k v of
           Inl p \<Rightarrow> Inl p
         | Inr tok \<Rightarrow> joinKVs_loop ext opts skipUnchanged sep lst rest (kv @ [tok])))"

text \<open>
  Modelled from the spec: the type \<^verbatim>\<open>byLongest\<close> is declared outside the sources at
  hand.  The spec has it order tokens by ascending length, so \<^verbatim>\<open>sort.Stable(byLongest(kv))\<close>
  is the stable sort on the key \<open>length\<close>.
\<close>

definition sort_Stable_byLongest :: "string list \<Rightarrow> string list" where
  "sort_Stable_byLongest kv = sort_key length kv"

text \<open>
  \<^verbatim>\<open>joinKVs\<close>.  \<^verbatim>\<open>sort.Strings\<close> orders strings by \<^verbatim>\<open><\<close>, the lexicographic order of
  their bytes: it is \<open>sort\<close> on \<open>string\<close>.
\<close>

definition joinKVs ::
  "'t ext \<Rightarrow> 't JSONHandler \<Rightarrow> bool \<Rightarrow> string \<Rightarrow> panic + string list" where
  "joinKVs ext h skipUnchanged sep =
     (case Opts h of
        None \<Rightarrow> Inl NilDereference
      | Some opts \<Rightarrow>
          (case joinKVs_loop ext opts skipUnchanged sep (last_fields h) (Fields h) [] of
             Inl p \<Rightarrow> Inl p
           | Inr kv \<Rightarrow>
               Inr (if SortLongest opts then sort_Stable_byLongest (sort kv) else sort kv)))"

subsection \<open>\<^verbatim>\<open>Prettify\<close>\<close>

text \<open>
  Modelled from the spec: \<^verbatim>\<open>imin\<close> is defined outside the sources at hand.  The spec
  has the level cut to at most 4 characters, fewer if the level is shorter: \<^verbatim>\<open>imin\<close> is
  the minimum of two \<^verbatim>\<open>int\<close>s.
\<close>

definition imin :: "int \<Rightarrow> int \<Rightarrow> int" where
  "imin a b = (if a < b then a else b)"

text \<open>Line 145: \<^verbatim>\<open>strings.ToUpper(h.Level)[:imin(4, len(h.Level))]\<close>.\<close>

definition level_abbrev :: "'t ext \<Rightarrow> string \<Rightarrow> panic + string" where
  "level_abbrev ext lvl_in = slice_to (strings_ToUpper ext lvl_in) (imin 4 (int (length lvl_in)))"

text \<open>Lines 147 to 160: the colour of the level.\<close>

definition level_colour :: "'t ext \<Rightarrow> string \<Rightarrow> string \<Rightarrow> string" where
  "level_colour ext lvl_in lvl =
     (if lvl_in = ''debug'' then FgString ext lvl 221 28 119
      else if lvl_in = ''info'' then FgString ext lvl 20 172 190
      else if lvl_in = ''warn'' \<or> lvl_in = ''warning'' then FgString ext lvl 255 245 32
      else if lvl_in = ''error'' then FgString ext lvl 255 0 0
      else if lvl_in = ''fatal'' \<or> lvl_in = ''panic'' then BgString ext lvl 255 0 0
      else FgString ext lvl 221 28 119)"

text \<open>Lines 136 to 143: the message.  \<^verbatim>\<open>h.Opts\<close> is read only when there is a message.\<close>

definition message_text :: "'t ext \<Rightarrow> 't JSONHandler \<Rightarrow> panic + string" where
  "message_text ext h =
     (if Message h = [] then Inr (FgString ext ''<no msg>'' 190 190 190)
      else
        (case Opts h of
           None \<Rightarrow> Inl NilDereference
         | Some opts \<Rightarrow>
             Inr (if LightBg opts then FgString ext (Message h) 0 0 0
                  else FgString ext (Message h) 255 255 255)))"

fun strings_Join :: "string list \<Rightarrow> string \<Rightarrow> string" where
  "strings_Join [] sep = []"
| "strings_Join [x] sep = x"
| "strings_Join (x # y # ys) sep = x @ sep @ strings_Join (y # ys) sep"

text \<open>
  Lines 136 to 167, in the order in which the source evaluates them: the text that is
  written to the tab writer, or the first panic.
\<close>

definition line_text :: "'t ext \<Rightarrow> 't JSONHandler \<Rightarrow> bool \<Rightarrow> panic + string" where
  "line_text ext h skipUnchanged =
     (case message_text ext h of
        Inl p \<Rightarrow> Inl p
      | Inr msg \<Rightarrow>
          (case level_abbrev ext (Level h) of
             Inl p \<Rightarrow> Inl p
           | Inr lvl \<Rightarrow>
               (case Opts h of
                  None \<Rightarrow> Inl NilDereference
                | Some opts \<Rightarrow>
                    (case joinKVs ext h skipUnchanged ''='' of
                       Inl p \<Rightarrow> Inl p
                     | Inr kvs \<Rightarrow>
                         Inr (FgString ext (time_Format ext (Time h) (TimeFormat opts)) 99 99 99
                              @ '' |'' @ level_colour ext (Level h) lvl @ ''| '' @ msg
                              @ [CHR 0x09, CHR '' '']
                              @ strings_Join kvs [CHR 0x09, CHR '' ''])))))"

text \<open>Lines 128 to 134: the lazy set-up of the writer, the buffer and the options.\<close>

definition init_out :: "'t ext \<Rightarrow> 't JSONHandler \<Rightarrow> 't JSONHandler" where
  "init_out ext h =
     (if buf h = None
      then h\<lparr>Opts := (case Opts h of None \<Rightarrow> Some (DefaultOptions ext) | Some opts \<Rightarrow> Some opts),
             buf := Some []\<rparr>
      else h)"

text \<open>
  \<^verbatim>\<open>Prettify\<close>: the bytes returned, or the panic, and the handler afterwards.  The deferred
  \<^verbatim>\<open>h.clear()\<close> runs on return and on panic alike.  The bytes returned are those of the
  buffer after the flush, read before \<^verbatim>\<open>clear\<close> resets it.
\<close>

definition Prettify ::
  "'t ext \<Rightarrow> 't JSONHandler \<Rightarrow> bool \<Rightarrow> (panic + string) \<times> 't JSONHandler" where
  "Prettify ext h skipUnchanged =
     (let h1 = init_out ext h in
      case line_text ext h1 skipUnchanged of
        Inl p \<Rightarrow> (Inl p, clear ext h1)
      | Inr txt \<Rightarrow>
          (let written = (case buf h1 of None \<Rightarrow> [] | Some b \<Rightarrow> b) @ tabwriter ext txt
           in (Inr written, clear ext (h1\<lparr>buf := Some written\<rparr>))))"

subsection \<open>One line after the other\<close>

text \<open>
  Modelled from the spec: \<^verbatim>\<open>Scanner\<close>, the read loop that \<^verbatim>\<open>main.go\<close> calls, is defined
  outside the sources at hand.  The spec has the life cycle of the handler be exactly one
  call pair per line: \<^verbatim>\<open>TryHandle\<close>, and \<^verbatim>\<open>Prettify\<close> when the line was handled.
\<close>

definition Scanner_step ::
  "'t ext \<Rightarrow> bool \<Rightarrow> 't JSONHandler \<Rightarrow> string \<Rightarrow> 't JSONHandler" where
  "Scanner_step ext skipUnchanged h d =
     (case TryHandle ext h d of
        (True, h1) \<Rightarrow> snd (Prettify ext h1 skipUnchanged)
      | (False, h1) \<Rightarrow> h1)"

subsection \<open>A concrete environment\<close>

text \<open>
  The examples below run the handler on a few lines.  They need one environment: a
  decoder that knows these lines, a styler that leaves the text as it is, a tab writer
  that copies its input.  Each entry returns what Go returns on the inputs the examples
  give it (no example computes a number that \<^verbatim>\<open>float64\<close> would round); \<open>time.Time\<close> is a
  number of seconds.
\<close>

definition ascii_upper :: "char \<Rightarrow> char" where
  "ascii_upper c =
     (if CHR ''a'' \<le> c \<and> c \<le> CHR ''z'' then char_of (of_char c - (32 :: nat)) else c)"

text \<open>
  The two-rune string made of U+0131 (LATIN SMALL LETTER DOTLESS I) twice, in UTF-8.
  \<^verbatim>\<open>unicode.ToUpper\<close> maps U+0131 to U+0049, the letter I, so \<^verbatim>\<open>strings.ToUpper\<close> maps
  these four bytes to the two bytes \<^verbatim>\<open>II\<close>.
\<close>

definition dotless_ii :: string where
  "dotless_ii = [CHR 0xC4, CHR 0xB1, CHR 0xC4, CHR 0xB1]"

definition line_a :: string where
  \<open>line_a = ''{"time":"2024-01-01T00:00:00Z","level":"info","msg":"started","count":3,"ratio":2.5,"env":"prod"}''\<close>

definition raw_a :: "(string \<times> val) list" where
  "raw_a =
     [(''time'', VString ''2024-01-01T00:00:00Z''), (''level'', VString ''info''),
      (''msg'', VString ''started''), (''count'', VFloat64 3), (''ratio'', VFloat64 (5 / 2)),
      (''env'', VString ''prod'')]"

definition line_b :: string where
  \<open>line_b = ''{"ts":1704067201,"lvl":"warning","count":4,"env":"prod"}''\<close>

definition raw_b :: "(string \<times> val) list" where
  "raw_b =
     [(''ts'', VFloat64 1704067201), (''lvl'', VString ''warning''),
      (''count'', VFloat64 4), (''env'', VString ''prod'')]"

definition line_c :: string where
  \<open>line_c = ''{"time":"yesterday","level":"info","env":"prod"}''\<close>

definition raw_c :: "(string \<times> val) list" where
  "raw_c =
     [(''time'', VString ''yesterday''), (''level'', VString ''info''),
      (''env'', VString ''prod'')]"

text \<open>A line that passes the probe and is not JSON, and a line that fails the probe.\<close>

definition line_d :: string where
  \<open>line_d = ''{"ts":''\<close>

definition line_e :: string where
  \<open>line_e = ''level=info msg=started''\<close>

text \<open>A line that passes the probe and has no timestamp key of its own.\<close>

definition line_f :: string where
  \<open>line_f = ''{"ctx":{"ts":1},"msg":"nested"}''\<close>

definition raw_f :: "(string \<times> val) list" where
  "raw_f = [(''ctx'', VMap [(''ts'', VFloat64 1)]), (''msg'', VString ''nested'')]"

definition line_g :: string where
  \<open>line_g = ''{"ts":"2024-01-01T00:00:00Z","message":"hello","lvl":"debug","env":"prod"}''\<close>

definition raw_g :: "(string \<times> val) list" where
  "raw_g =
     [(''ts'', VString ''2024-01-01T00:00:00Z''), (''message'', VString ''hello''),
      (''lvl'', VString ''debug''), (''env'', VString ''prod'')]"

text \<open>A line whose level is the string \<open>dotless_ii\<close>.\<close>

definition line_h :: string where
  \<open>line_h = ''{"time":"2024-01-01T00:00:00Z","level":"'' @ dotless_ii @ ''"}''\<close>

definition raw_h :: "(string \<times> val) list" where
  "raw_h = [(''time'', VString ''2024-01-01T00:00:00Z''), (''level'', VString dotless_ii)]"

text \<open>
  A line with a number just above \<open>-3\<close>: \<open>-3 + 2\<^sup>-\<^sup>2\<^sup>1\<close>, which is a \<^verbatim>\<open>float64\<close>.  And a
  line with a timestamp under \<^verbatim>\<open>time\<close> and a string that is no timestamp under \<^verbatim>\<open>ts\<close>.
\<close>

definition line_i :: string where
  \<open>line_i = ''{"time":"2024-01-01T00:00:00Z","delta":-2.999999523162841796875}''\<close>

definition raw_i :: "(string \<times> val) list" where
  "raw_i =
     [(''time'', VString ''2024-01-01T00:00:00Z''), (''delta'', VFloat64 (- 6291455 / 2097152))]"

definition line_j :: string where
  \<open>line_j = ''{"time":"2024-01-01T00:00:00Z","ts":"yesterday","level":"info"}''\<close>

definition raw_j :: "(string \<times> val) list" where
  "raw_j =
     [(''time'', VString ''2024-01-01T00:00:00Z''), (''ts'', VString ''yesterday''),
      (''level'', VString ''info'')]"

definition plain_options :: HandlerOptions where
  "plain_options =
     \<lparr>TimeFormat = ''Jan _2 15:04:05'', Truncates = True, TruncateLength = 5,
      SortLongest = True, SkipUnchanged = True, LightBg = False,
      KeyRGB = RGB 1 108 89, ValRGB = RGB 125 125 125,
      shouldShowKey = (\<lambda>k. True), shouldShowUnchanged = (\<lambda>k. False)\<rparr>"

definition plain_ext :: "int ext" where
  "plain_ext =
     \<lparr>json_Unmarshal =
        map_of [(line_a, raw_a), (line_b, raw_b), (line_c, raw_c), (line_f, raw_f),
                (line_g, raw_g), (line_h, raw_h), (line_i, raw_i), (line_j, raw_j)],
      tryParseTime =
        (\<lambda>s. if s = ''2024-01-01T00:00:00Z'' then (1704067200, True)
             else (- 62135596800, False)),
      time_zero = - 62135596800,
      time_Unix = (\<lambda>sec nsec. sec),
      time_Format = (\<lambda>t layout. layout),
      strings_ToUpper = (\<lambda>s. if s = dotless_ii then ''II'' else map ascii_upper s),
      strconv_escape = (\<lambda>s. s),
      fmt_g = (\<lambda>v. if v = 5 / 2 then ''2.5'' else ''?''),
      fmt_v = (\<lambda>x. if x = VMap [(''ts'', VFloat64 1)] then ''map[ts:1]'' else ''?''),
      int_of_float64_overflow = (\<lambda>v. - (2 ^ 63)),
      float64 = (\<lambda>v. v),
      FgString = (\<lambda>s r g b. s),
      BgString = (\<lambda>s r g b. s),
      tabwriter = (\<lambda>s. s),
      DefaultOptions = plain_options\<rparr>"

text \<open>The handler as \<^verbatim>\<open>&JSONHandler{Opts: opts}\<close> makes it.\<close>

definition new_handler :: "'t ext \<Rightarrow> HandlerOptions option \<Rightarrow> 't JSONHandler" where
  "new_handler ext opts =
     \<lparr>buf = None, Opts = opts, Level = [], Time = time_zero ext, Message = [],
      Fields = [], last_fields = []\<rparr>"

text \<open>
  A run: \<open>line_a\<close> is handled and rendered, then \<open>line_b\<close> is handled; or, after
  \<open>line_a\<close> is rendered, \<open>line_c\<close> fails to parse and \<open>line_g\<close> is handled.  And a handler
  that has handled \<open>line_h\<close>.
\<close>

definition state_a :: "int JSONHandler" where
  "state_a = snd (TryHandle plain_ext (new_handler plain_ext (Some plain_options)) line_a)"

definition state_a_rendered :: "int JSONHandler" where
  "state_a_rendered = snd (Prettify plain_ext state_a True)"

definition state_b :: "int JSONHandler" where
  "state_b = snd (TryHandle plain_ext state_a_rendered line_b)"

definition state_c :: "int JSONHandler" where
  "state_c = snd (TryHandle plain_ext state_a_rendered line_c)"

definition state_g :: "int JSONHandler" where
  "state_g = snd (TryHandle plain_ext state_c line_g)"

definition state_h :: "int JSONHandler" where
  "state_h = snd (TryHandle plain_ext (new_handler plain_ext (Some plain_options)) line_h)"

section \<open>Properties\<close>

subsection \<open>Maps as association lists\<close>

lemma map_of_fold_update:
  "distinct (map fst raw) \<Longrightarrow>
   map_of (fold (\<lambda>(key, x). AList.update key (f x)) raw fs) k =
     (case map_of raw k of Some x \<Rightarrow> Some (f x) | None \<Rightarrow> map_of fs k)"
proof (induction raw arbitrary: fs)
  case Nil
  then show ?case by simp
next
  case (Cons a raw)
  obtain k0 x0 where a: "a = (k0, x0)" by (cases a)
  from Cons.prems have d: "distinct (map fst raw)" and n: "k0 \<notin> fst ` set raw"
    by (auto simp: a)
  have none: "map_of raw k0 = None" using n by (simp add: map_of_eq_None_iff)
  show ?case
    using Cons.IH [OF d, of "AList.update k0 (f x0) fs"] none
    by (auto simp: a update_conv' split: option.splits)
qed

lemma keys_fold_update:
  "fst ` set (fold (\<lambda>(key, x). AList.update key (f x)) raw fs) = fst ` set raw \<union> fst ` set fs"
proof (induction raw arbitrary: fs)
  case Nil
  then show ?case by simp
next
  case (Cons a raw)
  show ?case
    by (cases a) (simp add: Cons.IH dom_update Un_assoc insert_commute)
qed

lemma distinct_fold_update:
  "distinct (map fst fs) \<Longrightarrow>
   distinct (map fst (fold (\<lambda>(key, x). AList.update key (f x)) raw fs))"
  by (induction raw arbitrary: fs) (auto simp: distinct_update)

subsection \<open>\<^verbatim>\<open>UnmarshalJSON\<close> and \<^verbatim>\<open>TryHandle\<close>\<close>

lemma extract_time_props:
  assumes "extract_time ext h raw = (e, h1, raw1)"
  shows "Fields h1 = Fields h" and "last_fields h1 = last_fields h"
    and "buf h1 = buf h" and "Opts h1 = Opts h"
    and "Level h1 = Level h" and "Message h1 = Message h"
    and "fst ` set raw1 \<subseteq> fst ` set raw"
    and "k \<noteq> ''time'' \<Longrightarrow> k \<noteq> ''ts'' \<Longrightarrow> map_of raw1 k = map_of raw k"
    and "distinct (map fst raw) \<Longrightarrow> distinct (map fst raw1)"
  using assms dom_delete_subset [of _ raw]
  by (auto simp: extract_time_def distinct_delete
      split: option.splits val.splits prod.splits if_splits)

lemma extract_message_props:
  assumes "extract_message h raw = (h1, raw1)"
  shows "Fields h1 = Fields h" and "last_fields h1 = last_fields h"
    and "buf h1 = buf h" and "Opts h1 = Opts h"
    and "Level h1 = Level h" and "Time h1 = Time h"
    and "fst ` set raw1 \<subseteq> fst ` set raw"
    and "k \<noteq> ''msg'' \<Longrightarrow> k \<noteq> ''message'' \<Longrightarrow> map_of raw1 k = map_of raw k"
    and "distinct (map fst raw) \<Longrightarrow> distinct (map fst raw1)"
  using assms dom_delete_subset [of _ raw]
  by (auto simp: extract_message_def distinct_delete split: option.splits)

lemma extract_level_props:
  assumes "extract_level h raw = (h1, raw1)"
  shows "Fields h1 = Fields h" and "last_fields h1 = last_fields h"
    and "buf h1 = buf h" and "Opts h1 = Opts h"
    and "Message h1 = Message h" and "Time h1 = Time h"
    and "fst ` set raw1 \<subseteq> fst ` set raw"
    and "k \<noteq> ''level'' \<Longrightarrow> k \<noteq> ''lvl'' \<Longrightarrow> map_of raw1 k = map_of raw k"
    and "distinct (map fst raw) \<Longrightarrow> distinct (map fst raw1)"
  using assms dom_delete_subset [of _ raw]
  by (auto simp: extract_level_def distinct_delete split: option.splits)

lemma UnmarshalJSON_okE:
  assumes "UnmarshalJSON ext h d = (None, h')"
  obtains raw h1 raw1 h2 raw2 h3 raw3 where
    "json_Unmarshal ext d = Some raw"
    "extract_time ext h raw = (None, h1, raw1)"
    "extract_message h1 raw1 = (h2, raw2)"
    "extract_level h2 raw2 = (h3, raw3)"
    "h' = set_fields ext h3 raw3"
proof -
  from assms obtain raw where r: "json_Unmarshal ext d = Some raw"
    by (cases "json_Unmarshal ext d") (simp_all add: UnmarshalJSON_def)
  obtain e h1 raw1 where t: "extract_time ext h raw = (e, h1, raw1)"
    by (cases "extract_time ext h raw")
  obtain h2 raw2 where m: "extract_message h1 raw1 = (h2, raw2)"
    by (cases "extract_message h1 raw1")
  obtain h3 raw3 where l: "extract_level h2 raw2 = (h3, raw3)"
    by (cases "extract_level h2 raw2")
  from assms r t have e: "e = None"
    by (cases e) (simp_all add: UnmarshalJSON_def)
  from assms have "h' = set_fields ext h3 raw3"
    by (simp add: UnmarshalJSON_def r t m l e)
  with r t m l e show ?thesis by (intro that) simp_all
qed

text \<open>A key that is none of the six reserved ones is stored with its display string.\<close>

lemma UnmarshalJSON_field:
  assumes ok: "UnmarshalJSON ext h d = (None, h')"
    and dec: "json_Unmarshal ext d = Some raw"
    and dist: "distinct (map fst raw)"
    and key: "key \<notin> {''time'', ''ts'', ''msg'', ''message'', ''level'', ''lvl''}"
    and at: "map_of raw key = Some x"
  shows "map_of (Fields h') key = Some (format_value ext x)"
proof -
  from ok obtain raw' h1 raw1 h2 raw2 h3 raw3 where
    d': "json_Unmarshal ext d = Some raw'"
    and t: "extract_time ext h raw' = (None, h1, raw1)"
    and m: "extract_message h1 raw1 = (h2, raw2)"
    and l: "extract_level h2 raw2 = (h3, raw3)"
    and h': "h' = set_fields ext h3 raw3"
    by (rule UnmarshalJSON_okE)
  from d' dec have [simp]: "raw' = raw" by simp
  have "map_of raw3 key = map_of raw key"
    using key extract_time_props(8) [OF t, of key] extract_message_props(8) [OF m, of key]
      extract_level_props(8) [OF l, of key]
    by simp
  moreover have "distinct (map fst raw3)"
    using dist extract_time_props(9) [OF t] extract_message_props(9) [OF m]
      extract_level_props(9) [OF l]
    by simp
  ultimately show ?thesis
    using at by (simp add: h' set_fields_def map_of_fold_update)
qed

lemma extract_time_consumes:
  assumes "extract_time ext h raw = (None, h1, raw1)"
  shows "string_at raw ''time'' \<noteq> None \<Longrightarrow> ''time'' \<notin> fst ` set raw1"
    and "string_at raw ''time'' = None \<Longrightarrow>
         string_at raw ''ts'' \<noteq> None \<or> (\<exists>i. map_of raw ''ts'' = Some (VInt64 i)) \<or>
           (\<exists>f. map_of raw ''ts'' = Some (VFloat64 f)) \<Longrightarrow>
         ''ts'' \<notin> fst ` set raw1"
  using assms delete_notin_dom [of "''time''" raw] delete_notin_dom [of "''ts''" raw]
  by (auto simp: extract_time_def string_at_def
      split: option.splits val.splits prod.splits if_splits)

lemma extract_message_consumes:
  assumes "extract_message h raw = (h1, raw1)"
  shows "string_at raw ''msg'' \<noteq> None \<Longrightarrow> ''msg'' \<notin> fst ` set raw1"
    and "string_at raw ''msg'' = None \<Longrightarrow> string_at raw ''message'' \<noteq> None \<Longrightarrow>
         ''message'' \<notin> fst ` set raw1"
  using assms delete_notin_dom [of "''msg''" raw] delete_notin_dom [of "''message''" raw]
  by (auto simp: extract_message_def split: option.splits)

lemma extract_level_consumes:
  assumes "extract_level h raw = (h1, raw1)"
  shows "string_at raw ''level'' \<noteq> None \<Longrightarrow> ''level'' \<notin> fst ` set raw1"
    and "string_at raw ''level'' = None \<Longrightarrow> ''lvl'' \<notin> fst ` set raw1"
  using assms delete_notin_dom [of "''level''" raw] delete_notin_dom [of "''lvl''" raw]
  by (auto simp: extract_level_def split: option.splits)

lemma string_at_cong: "map_of raw1 k = map_of raw k \<Longrightarrow> string_at raw1 k = string_at raw k"
  by (simp add: string_at_def)

lemma extract_time_fails_iff:
  "(fst (extract_time ext h raw) \<noteq> None) =
     (\<exists>s. (string_at raw ''time'' = Some s \<or>
            string_at raw ''time'' = None \<and> string_at raw ''ts'' = Some s) \<and>
          \<not> snd (tryParseTime ext s))"
  by (auto simp: extract_time_def split: option.splits val.splits prod.splits)

lemma extract_time_fails_state:
  "fst (extract_time ext h raw) \<noteq> None \<Longrightarrow> \<exists>t. fst (snd (extract_time ext h raw)) = h\<lparr>Time := t\<rparr>"
  by (auto simp: extract_time_def split: option.splits val.splits prod.splits)

lemma extract_time_no_key:
  "''time'' \<notin> fst ` set raw \<Longrightarrow> ''ts'' \<notin> fst ` set raw \<Longrightarrow>
   extract_time ext h raw = (None, h, raw)"
proof -
  assume "''time'' \<notin> fst ` set raw" and "''ts'' \<notin> fst ` set raw"
  then have "map_of raw ''time'' = None" and "map_of raw ''ts'' = None"
    by (simp_all add: map_of_eq_None_iff)
  then show ?thesis by (simp add: extract_time_def string_at_def)
qed

lemma UnmarshalJSON_fst:
  "fst (UnmarshalJSON ext h d) =
     (case json_Unmarshal ext d of
        None \<Rightarrow> Some JSONError
      | Some raw \<Rightarrow> fst (extract_time ext h raw))"
  by (auto simp: UnmarshalJSON_def split: option.splits prod.splits)

lemma UnmarshalJSON_fails_state:
  assumes "fst (UnmarshalJSON ext h d) \<noteq> None"
  shows "\<exists>t. snd (UnmarshalJSON ext h d) = h\<lparr>Time := t\<rparr>"
proof (cases "json_Unmarshal ext d")
  case None
  then have "snd (UnmarshalJSON ext h d) = h\<lparr>Time := Time h\<rparr>"
    by (simp add: UnmarshalJSON_def)
  then show ?thesis ..
next
  case (Some raw)
  with assms have f: "fst (extract_time ext h raw) \<noteq> None"
    by (simp add: UnmarshalJSON_fst)
  then obtain t where "fst (snd (extract_time ext h raw)) = h\<lparr>Time := t\<rparr>"
    using extract_time_fails_state by blast
  with f Some have "snd (UnmarshalJSON ext h d) = h\<lparr>Time := t\<rparr>"
    by (auto simp: UnmarshalJSON_def split: prod.splits option.splits)
  then show ?thesis ..
qed

lemma UnmarshalJSON_no_key:
  assumes "json_Unmarshal ext d = Some raw" "''time'' \<notin> fst ` set raw" "''ts'' \<notin> fst ` set raw"
  shows "fst (UnmarshalJSON ext h d) = None" and "Time (snd (UnmarshalJSON ext h d)) = Time h"
proof -
  have t: "extract_time ext h raw = (None, h, raw)"
    using assms(2,3) by (rule extract_time_no_key)
  show "fst (UnmarshalJSON ext h d) = None"
    by (simp add: UnmarshalJSON_fst assms(1) t)
  obtain h2 raw2 where m: "extract_message h raw = (h2, raw2)"
    by (cases "extract_message h raw")
  obtain h3 raw3 where l: "extract_level h2 raw2 = (h3, raw3)"
    by (cases "extract_level h2 raw2")
  have "snd (UnmarshalJSON ext h d) = set_fields ext h3 raw3"
    by (simp add: UnmarshalJSON_def assms(1) t m l)
  then show "Time (snd (UnmarshalJSON ext h d)) = Time h"
    by (simp add: set_fields_def extract_level_props(6) [OF l] extract_message_props(6) [OF m])
qed

lemma UnmarshalJSON_last_fields:
  "last_fields (snd (UnmarshalJSON ext h d)) = last_fields h"
proof (cases "fst (UnmarshalJSON ext h d)")
  case None
  then have "UnmarshalJSON ext h d = (None, snd (UnmarshalJSON ext h d))"
    by (cases "UnmarshalJSON ext h d") simp
  then obtain raw h1 raw1 h2 raw2 h3 raw3 where
    t: "extract_time ext h raw = (None, h1, raw1)"
    and m: "extract_message h1 raw1 = (h2, raw2)"
    and l: "extract_level h2 raw2 = (h3, raw3)"
    and h': "snd (UnmarshalJSON ext h d) = set_fields ext h3 raw3"
    by (rule UnmarshalJSON_okE)
  show ?thesis
    by (simp add: h' set_fields_def extract_time_props(2) [OF t] extract_message_props(2) [OF m]
        extract_level_props(2) [OF l])
next
  case (Some e)
  then obtain t where "snd (UnmarshalJSON ext h d) = h\<lparr>Time := t\<rparr>"
    using UnmarshalJSON_fails_state [of ext h d] by auto
  then show ?thesis by simp
qed

lemma UnmarshalJSON_Opts: "Opts (snd (UnmarshalJSON ext h d)) = Opts h"
proof (cases "fst (UnmarshalJSON ext h d)")
  case None
  then have "UnmarshalJSON ext h d = (None, snd (UnmarshalJSON ext h d))"
    by (cases "UnmarshalJSON ext h d") simp
  then obtain raw h1 raw1 h2 raw2 h3 raw3 where
    t: "extract_time ext h raw = (None, h1, raw1)"
    and m: "extract_message h1 raw1 = (h2, raw2)"
    and l: "extract_level h2 raw2 = (h3, raw3)"
    and h': "snd (UnmarshalJSON ext h d) = set_fields ext h3 raw3"
    by (rule UnmarshalJSON_okE)
  show ?thesis
    by (simp add: h' set_fields_def extract_time_props(4) [OF t] extract_message_props(4) [OF m]
        extract_level_props(4) [OF l])
next
  case (Some e)
  then obtain t where "snd (UnmarshalJSON ext h d) = h\<lparr>Time := t\<rparr>"
    using UnmarshalJSON_fails_state [of ext h d] by auto
  then show ?thesis by simp
qed

lemma UnmarshalJSON_distinct:
  assumes "fst (UnmarshalJSON ext h d) = None" and "distinct (map fst (Fields h))"
  shows "distinct (map fst (Fields (snd (UnmarshalJSON ext h d))))"
proof -
  have "UnmarshalJSON ext h d = (None, snd (UnmarshalJSON ext h d))"
    using assms(1) by (cases "UnmarshalJSON ext h d") simp
  then obtain raw h1 raw1 h2 raw2 h3 raw3 where
    t: "extract_time ext h raw = (None, h1, raw1)"
    and m: "extract_message h1 raw1 = (h2, raw2)"
    and l: "extract_level h2 raw2 = (h3, raw3)"
    and h': "snd (UnmarshalJSON ext h d) = set_fields ext h3 raw3"
    by (rule UnmarshalJSON_okE)
  have "Fields h3 = Fields h"
    by (simp add: extract_time_props(1) [OF t] extract_message_props(1) [OF m]
        extract_level_props(1) [OF l])
  then show ?thesis
    using assms(2) by (simp add: h' set_fields_def distinct_fold_update)
qed

lemma TryHandle_fails:
  assumes "fst (UnmarshalJSON ext h d) \<noteq> None"
  shows "\<not> fst (TryHandle ext h d)"
    and "bytes_Contains d time_marker \<or> bytes_Contains d ts_marker \<Longrightarrow>
         snd (TryHandle ext h d) = clear ext (snd (UnmarshalJSON ext h d))"
  using assms by (auto simp: TryHandle_def split: prod.splits option.splits)

lemma TryHandle_ok:
  "fst (TryHandle ext h d) \<Longrightarrow> TryHandle ext h d = (True, snd (UnmarshalJSON ext h d))"
  by (auto simp: TryHandle_def split: if_splits prod.splits option.splits)

lemma UnmarshalJSON_ok_fst:
  "fst (TryHandle ext h d) \<Longrightarrow> fst (UnmarshalJSON ext h d) = None"
  by (auto simp: TryHandle_def split: if_splits prod.splits option.splits)

lemma TryHandle_ok_last_fields:
  "fst (TryHandle ext h d) \<Longrightarrow> last_fields (snd (TryHandle ext h d)) = last_fields h"
  by (simp add: TryHandle_ok UnmarshalJSON_last_fields)

lemma TryHandle_Opts: "Opts (snd (TryHandle ext h d)) = Opts h"
  by (auto simp: TryHandle_def clear_def UnmarshalJSON_Opts [of ext h d, symmetric]
      split: prod.splits option.splits)

subsection \<open>\<^verbatim>\<open>Prettify\<close>\<close>

lemma Prettify_state:
  "\<exists>opts b. snd (Prettify ext h skipUnchanged) = clear ext (h\<lparr>Opts := opts, buf := b\<rparr>)"
proof -
  have i: "\<exists>opts b. init_out ext h = h\<lparr>Opts := opts, buf := b\<rparr>"
  proof (cases "buf h = None")
    case True
    then show ?thesis by (auto simp: init_out_def)
  next
    case False
    then have "init_out ext h = h" by (auto simp: init_out_def)
    moreover have "h = h\<lparr>Opts := Opts h, buf := buf h\<rparr>" by simp
    ultimately have "init_out ext h = h\<lparr>Opts := Opts h, buf := buf h\<rparr>" by simp
    then show ?thesis by blast
  qed
  then obtain opts b where h1: "init_out ext h = h\<lparr>Opts := opts, buf := b\<rparr>" by blast
  show ?thesis
  proof (cases "line_text ext (init_out ext h) skipUnchanged")
    case (Inl p)
    then have "snd (Prettify ext h skipUnchanged) = clear ext (h\<lparr>Opts := opts, buf := b\<rparr>)"
      by (simp add: Prettify_def Let_def h1)
    then show ?thesis by blast
  next
    case (Inr line)
    then have "snd (Prettify ext h skipUnchanged) =
        clear ext (h\<lparr>Opts := opts,
          buf := Some ((case b of None \<Rightarrow> [] | Some b \<Rightarrow> b) @ tabwriter ext line)\<rparr>)"
      by (simp add: Prettify_def Let_def h1)
    then show ?thesis by blast
  qed
qed

lemma Prettify_Opts:
  assumes "Opts h = Some opts"
  shows "Opts (snd (Prettify ext h skipUnchanged)) = Some opts"
proof -
  have "Opts (init_out ext h) = Some opts" using assms by (simp add: init_out_def)
  then show ?thesis
    by (cases "line_text ext (init_out ext h) skipUnchanged")
      (simp_all add: Prettify_def Let_def clear_def)
qed

lemma level_abbrev_same_length:
  "length (strings_ToUpper ext lvl) = length lvl \<Longrightarrow>
   level_abbrev ext lvl = Inr (take 4 (strings_ToUpper ext lvl))"
  by (auto simp: level_abbrev_def slice_to_def imin_def)

text \<open>
  Between two lines the handler holds no fields: every normalization starts from the
  empty map, as it does on a new handler.
\<close>

lemma Scanner_step_Fields:
  assumes "Fields h = []"
  shows "Fields (Scanner_step ext skipUnchanged h d) = []"
proof -
  obtain handled h1 where t: "TryHandle ext h d = (handled, h1)"
    by (cases "TryHandle ext h d")
  show ?thesis
  proof (cases handled)
    case True
    obtain opts b where
      "snd (Prettify ext h1 skipUnchanged) = clear ext (h1\<lparr>Opts := opts, buf := b\<rparr>)"
      using Prettify_state by blast
    then show ?thesis
      by (simp add: Scanner_step_def t True clear_def)
  next
    case False
    have "Fields h1 = []"
      using assms t False
      by (auto simp: TryHandle_def clear_def split: if_splits prod.splits option.splits)
    then show ?thesis
      by (simp add: Scanner_step_def t False)
  qed
qed

lemma Scanner_steps_Fields:
  "Fields h = [] \<Longrightarrow> Fields (fold (\<lambda>d h. Scanner_step ext skipUnchanged h d) ds h) = []"
  by (induction ds arbitrary: h) (simp_all add: Scanner_step_Fields)

lemma new_handler_Fields: "Fields (new_handler ext opts) = []"
  by (simp add: new_handler_def)

subsection \<open>Numbers\<close>

lemma trunc_floor:
  assumes "0 \<le> v \<or> v = of_int \<lfloor>v\<rfloor>"
  shows "trunc v = \<lfloor>v\<rfloor>"
proof (cases "0 \<le> v")
  case True
  then show ?thesis by (simp add: trunc_def)
next
  case False
  with assms have "v = of_int \<lfloor>v\<rfloor>" by simp
  then have "\<lceil>v\<rceil> = \<lfloor>v\<rfloor>" by (metis ceiling_of_int)
  with False show ?thesis by (simp add: trunc_def)
qed

lemma round_floor:
  fixes v :: rat
  assumes "v - of_int \<lfloor>v\<rfloor> < float64_0_000001"
  shows "round v = \<lfloor>v\<rfloor>"
proof -
  have "float64_0_000001 < 1 / 2" by (simp add: float64_0_000001_def)
  with assms have "v + 1 / 2 < of_int \<lfloor>v\<rfloor> + 1" by linarith
  moreover have "of_int \<lfloor>v\<rfloor> \<le> v + 1 / 2"
    using of_int_floor_le [of v] by linarith
  ultimately show ?thesis unfolding round_def by (intro floor_unique) simp_all
qed

lemma format_value_integer:
  fixes v :: rat
  assumes c: "v - of_int \<lfloor>v\<rfloor> < float64_0_000001" "v < 1000000000"
    and s: "0 \<le> v \<or> v = of_int \<lfloor>v\<rfloor>" and lo: "- (2 ^ 63) \<le> v"
  shows "format_value ext (VFloat64 v) = fmt_d (round v)"
proof -
  have t: "trunc v = \<lfloor>v\<rfloor>" using s by (rule trunc_floor)
  have "- (2 ^ 63) \<le> \<lfloor>v\<rfloor>" using lo by (simp add: le_floor_iff)
  moreover have "\<lfloor>v\<rfloor> < 2 ^ 63" using c(2) by (simp add: floor_less_iff)
  ultimately have "int_of_float64 ext v = \<lfloor>v\<rfloor>" by (simp add: int_of_float64_def t)
  then show ?thesis using c by (simp add: format_value_def round_floor)
qed

lemma format_value_float:
  "\<not> (v - of_int \<lfloor>v\<rfloor> < float64_0_000001 \<and> v < 1000000000) \<Longrightarrow>
   format_value ext (VFloat64 v) = fmt_g ext v"
  by (auto simp: format_value_def)

subsection \<open>The loop of \<^verbatim>\<open>joinKVs\<close>\<close>

lemma unchanged_iff:
  "unchanged opts lst k v = (map_of lst k = Some v \<and> \<not> shouldShowUnchanged opts k)"
  by (auto simp: unchanged_def split: option.splits)

lemma joinKVs_loop_skip:
  "\<not> shouldShowKey opts k \<or> skip \<and> unchanged opts lst k v \<Longrightarrow>
   joinKVs_loop ext opts skip sep lst ((k, v) # fs) kv = joinKVs_loop ext opts skip sep lst fs kv"
  by auto

lemma joinKVs_loop_keep:
  "\<not> (\<not> shouldShowKey opts k \<or> skip \<and> unchanged opts lst k v) \<Longrightarrow>
   joinKVs_loop ext opts skip sep lst ((k, v) # fs) kv =
     (case kv_token ext opts sep k v of
        Inl p \<Rightarrow> Inl p
      | Inr tok \<Rightarrow> joinKVs_loop ext opts skip sep lst fs (kv @ [tok]))"
  by auto

lemma joinKVs_loop_keepE:
  assumes "\<not> (\<not> shouldShowKey opts k \<or> skip \<and> unchanged opts lst k v)"
    and "joinKVs_loop ext opts skip sep lst ((k, v) # fs) kv = Inr out"
  obtains tok where "kv_token ext opts sep k v = Inr tok"
    and "joinKVs_loop ext opts skip sep lst fs (kv @ [tok]) = Inr out"
proof (cases "kv_token ext opts sep k v")
  case (Inl p)
  with assms show ?thesis by (simp add: joinKVs_loop_keep del: joinKVs_loop.simps)
next
  case (Inr tok)
  with assms have "joinKVs_loop ext opts skip sep lst fs (kv @ [tok]) = Inr out"
    by (simp add: joinKVs_loop_keep del: joinKVs_loop.simps)
  with Inr show ?thesis by (rule that)
qed

lemma joinKVs_loop_superset:
  "joinKVs_loop ext opts skip sep lst fs kv = Inr out \<Longrightarrow> set kv \<subseteq> set out"
proof (induction fs arbitrary: kv)
  case Nil
  then show ?case by simp
next
  case (Cons a fs)
  obtain k v where a: "a = (k, v)" by (cases a)
  show ?case
  proof (cases "\<not> shouldShowKey opts k \<or> skip \<and> unchanged opts lst k v")
    case True
    with Cons.prems have "joinKVs_loop ext opts skip sep lst fs kv = Inr out"
      by (simp only: a joinKVs_loop_skip)
    then show ?thesis by (rule Cons.IH)
  next
    case False
    from False Cons.prems [unfolded a] obtain tok where
      "joinKVs_loop ext opts skip sep lst fs (kv @ [tok]) = Inr out"
      by (rule joinKVs_loop_keepE)
    then have "set (kv @ [tok]) \<subseteq> set out" by (rule Cons.IH)
    then show ?thesis by simp
  qed
qed

lemma joinKVs_loop_present:
  "joinKVs_loop ext opts skip sep lst fs kv = Inr out \<Longrightarrow> (k, v) \<in> set fs \<Longrightarrow>
   \<not> (\<not> shouldShowKey opts k \<or> skip \<and> unchanged opts lst k v) \<Longrightarrow>
   \<exists>tok. kv_token ext opts sep k v = Inr tok \<and> tok \<in> set out"
proof (induction fs arbitrary: kv)
  case Nil
  then show ?case by simp
next
  case (Cons a fs)
  obtain k' v' where a: "a = (k', v')" by (cases a)
  show ?case
  proof (cases "(k, v) = (k', v')")
    case True
    then have kv: "k' = k" "v' = v" by simp_all
    from Cons.prems(3) Cons.prems(1) [unfolded a kv] obtain tok where
      t: "kv_token ext opts sep k v = Inr tok"
      and l: "joinKVs_loop ext opts skip sep lst fs (kv @ [tok]) = Inr out"
      by (rule joinKVs_loop_keepE)
    from l have "set (kv @ [tok]) \<subseteq> set out" by (rule joinKVs_loop_superset)
    with t show ?thesis by auto
  next
    case False
    with Cons.prems(2) have m: "(k, v) \<in> set fs" by (auto simp: a)
    show ?thesis
    proof (cases "\<not> shouldShowKey opts k' \<or> skip \<and> unchanged opts lst k' v'")
      case True
      with Cons.prems(1) have "joinKVs_loop ext opts skip sep lst fs kv = Inr out"
        by (simp only: a joinKVs_loop_skip)
      then show ?thesis using m Cons.prems(3) by (rule Cons.IH)
    next
      case False
      from False Cons.prems(1) [unfolded a] obtain tok where
        "joinKVs_loop ext opts skip sep lst fs (kv @ [tok]) = Inr out"
        by (rule joinKVs_loop_keepE)
      then show ?thesis using m Cons.prems(3) by (rule Cons.IH)
    qed
  qed
qed

lemma joinKVs_loop_delete:
  "(\<And>v'. (k, v') \<in> set fs \<Longrightarrow> \<not> shouldShowKey opts k \<or> skip \<and> unchanged opts lst k v') \<Longrightarrow>
   joinKVs_loop ext opts skip sep lst (AList.delete k fs) kv =
   joinKVs_loop ext opts skip sep lst fs kv"
proof (induction fs arbitrary: kv)
  case Nil
  then show ?case by simp
next
  case (Cons a fs)
  obtain k' v' where a: "a = (k', v')" by (cases a)
  have ih: "\<And>kv. joinKVs_loop ext opts skip sep lst (AList.delete k fs) kv =
      joinKVs_loop ext opts skip sep lst fs kv"
    using Cons.prems by (intro Cons.IH) auto
  show ?case
  proof (cases "k' = k")
    case True
    have s: "\<not> shouldShowKey opts k \<or> skip \<and> unchanged opts lst k v'"
      using Cons.prems [of v'] by (simp add: a True)
    have d: "AList.delete k (a # fs) = AList.delete k fs"
      by (simp add: a True)
    have "joinKVs_loop ext opts skip sep lst (a # fs) kv =
        joinKVs_loop ext opts skip sep lst fs kv"
      unfolding a True by (simp only: joinKVs_loop_skip [OF s])
    then show ?thesis by (simp only: d ih)
  next
    case False
    have d: "AList.delete k (a # fs) = (k', v') # AList.delete k fs"
      using False by (simp add: a)
    show ?thesis
    proof (cases "\<not> shouldShowKey opts k' \<or> skip \<and> unchanged opts lst k' v'")
      case True
      have "joinKVs_loop ext opts skip sep lst (a # fs) kv =
          joinKVs_loop ext opts skip sep lst fs kv"
        unfolding a by (simp only: joinKVs_loop_skip [OF True])
      then show ?thesis by (simp only: d joinKVs_loop_skip [OF True] ih)
    next
      case False
      have "joinKVs_loop ext opts skip sep lst (a # fs) kv =
          (case kv_token ext opts sep k' v' of
             Inl p \<Rightarrow> Inl p
           | Inr tok \<Rightarrow> joinKVs_loop ext opts skip sep lst fs (kv @ [tok]))"
        unfolding a by (simp only: joinKVs_loop_keep [OF False])
      then show ?thesis by (simp only: d joinKVs_loop_keep [OF False] ih)
    qed
  qed
qed

lemma joinKVs_loop_empty_last:
  "joinKVs_loop ext opts True sep [] fs kv = joinKVs_loop ext opts False sep [] fs kv"
  by (induction fs arbitrary: kv) (auto simp: unchanged_def split: sum.splits)




lemma joinKVs_set:
  "Opts h = Some opts \<Longrightarrow> joinKVs ext h skip sep = Inr kv \<Longrightarrow>
   \<exists>out. joinKVs_loop ext opts skip sep (last_fields h) (Fields h) [] = Inr out \<and> set kv = set out"
  by (auto simp: joinKVs_def sort_Stable_byLongest_def split: sum.splits if_splits)

lemma joinKVs_present:
  assumes "Opts h = Some opts" and "joinKVs ext h skip sep = Inr kv"
    and "(k, v) \<in> set (Fields h)"
    and "\<not> (\<not> shouldShowKey opts k \<or> skip \<and> unchanged opts (last_fields h) k v)"
  shows "\<exists>tok. kv_token ext opts sep k v = Inr tok \<and> tok \<in> set kv"
proof -
  from assms(1,2) obtain out where
    l: "joinKVs_loop ext opts skip sep (last_fields h) (Fields h) [] = Inr out"
    and s: "set kv = set out"
    using joinKVs_set by blast
  from l assms(3,4) obtain tok where "kv_token ext opts sep k v = Inr tok" "tok \<in> set out"
    using joinKVs_loop_present by blast
  with s show ?thesis by auto
qed

lemma joinKVs_suppressed:
  assumes o: "Opts h = Some opts" and d: "distinct (map fst (Fields h))"
    and m: "map_of (Fields h) k = Some v" and u: "unchanged opts (last_fields h) k v"
  shows "joinKVs ext (h\<lparr>Fields := AList.delete k (Fields h)\<rparr>) True sep = joinKVs ext h True sep"
proof -
  have "\<And>v'. (k, v') \<in> set (Fields h) \<Longrightarrow>
      \<not> shouldShowKey opts k \<or> True \<and> unchanged opts (last_fields h) k v'"
    using d m u by simp
  then have "joinKVs_loop ext opts True sep (last_fields h) (AList.delete k (Fields h)) [] =
      joinKVs_loop ext opts True sep (last_fields h) (Fields h) []"
    by (rule joinKVs_loop_delete)
  then show ?thesis by (simp add: joinKVs_def o)
qed

subsection \<open>The two sorts\<close>

lemma insort_key_length_order:
  assumes "sorted_wrt (\<lambda>a b. length a < length b \<or> length a = length b \<and> a \<le> b) ys"
    and "\<forall>y \<in> set ys. x \<le> y"
  shows "sorted_wrt (\<lambda>a b. length a < length b \<or> length a = length b \<and> a \<le> b)
           (insort_key length x ys)"
  using assms
proof (induction ys)
  case Nil
  then show ?case by simp
next
  case (Cons y ys)
  show ?case
  proof (cases "length x \<le> length y")
    case True
    have "\<forall>z \<in> set (y # ys). length x < length z \<or> length x = length z \<and> x \<le> z"
    proof
      fix z
      assume z: "z \<in> set (y # ys)"
      then have "length y \<le> length z" using Cons.prems(1) by auto
      moreover have "x \<le> z" using Cons.prems(2) z by blast
      ultimately show "length x < length z \<or> length x = length z \<and> x \<le> z"
        using True by auto
    qed
    then show ?thesis using True Cons.prems(1) by simp
  next
    case False
    have "sorted_wrt (\<lambda>a b. length a < length b \<or> length a = length b \<and> a \<le> b)
        (insort_key length x ys)"
      using Cons.prems by (intro Cons.IH) auto
    moreover have "\<forall>z \<in> set (insort_key length x ys).
        length y < length z \<or> length y = length z \<and> y \<le> z"
      using False Cons.prems(1) by (auto simp: set_insort_key)
    ultimately show ?thesis using False by simp
  qed
qed

lemma sort_key_length_order:
  "sorted xs \<Longrightarrow>
   sorted_wrt (\<lambda>a b. length a < length b \<or> length a = length b \<and> a \<le> b)
     (sort_key length xs)"
proof (induction xs)
  case Nil
  then show ?case by simp
next
  case (Cons x xs)
  then have "sorted_wrt (\<lambda>a b. length a < length b \<or> length a = length b \<and> a \<le> b)
      (sort_key length xs)"
    by simp
  moreover have "\<forall>y \<in> set (sort_key length xs). x \<le> y"
    using Cons.prems by auto
  ultimately show ?case
    by (simp add: sort_key_simps insort_key_length_order)
qed

subsection \<open>The examples, evaluated\<close>

lemma line_a_decodes: "json_Unmarshal plain_ext line_a = Some raw_a"
  by (simp add: plain_ext_def line_a_def)

lemma raw_a_distinct: "distinct (map fst raw_a)"
  by (simp add: raw_a_def)

lemma line_a_ok: "fst (UnmarshalJSON plain_ext (new_handler plain_ext None) line_a) = None"
  by code_simp

lemma line_b_decodes: "json_Unmarshal plain_ext line_b = Some raw_b"
  by code_simp

lemma line_b_ok: "fst (UnmarshalJSON plain_ext (new_handler plain_ext None) line_b) = None"
  by code_simp

lemma line_g_decodes: "json_Unmarshal plain_ext line_g = Some raw_g"
  by code_simp

lemma line_g_ok: "fst (UnmarshalJSON plain_ext (new_handler plain_ext None) line_g) = None"
  by code_simp

lemma line_c_decodes: "json_Unmarshal plain_ext line_c = Some raw_c"
  by code_simp

lemma line_c_probe: "bytes_Contains line_c time_marker"
  by code_simp

lemma line_f_decodes: "json_Unmarshal plain_ext line_f = Some raw_f"
  by code_simp

lemma line_f_probe: "bytes_Contains line_f ts_marker"
  by code_simp

lemma line_d_probe: "bytes_Contains line_d ts_marker"
  by code_simp

lemma line_e_probe: "\<not> bytes_Contains line_e time_marker \<and> \<not> bytes_Contains line_e ts_marker"
  by code_simp

lemma new_handler_no_reserved:
  "fst ` set (Fields (new_handler ext opts)) \<inter>
     {''time'', ''ts'', ''msg'', ''message'', ''level'', ''lvl''} = {}"
  by (simp add: new_handler_def)

lemma state_Opts:
  "Opts state_a = Some plain_options" "Opts state_a_rendered = Some plain_options"
  "Opts state_b = Some plain_options" "Opts state_c = Some plain_options"
  "Opts state_g = Some plain_options" "Opts state_h = Some plain_options"
proof -
  show a: "Opts state_a = Some plain_options"
    by (simp add: state_a_def TryHandle_Opts new_handler_def)
  then show r: "Opts state_a_rendered = Some plain_options"
    by (simp add: state_a_rendered_def Prettify_Opts)
  then show "Opts state_b = Some plain_options"
    by (simp add: state_b_def TryHandle_Opts)
  from r show c: "Opts state_c = Some plain_options"
    by (simp add: state_c_def TryHandle_Opts)
  then show "Opts state_g = Some plain_options"
    by (simp add: state_g_def TryHandle_Opts)
  show "Opts state_h = Some plain_options"
    by (simp add: state_h_def TryHandle_Opts new_handler_def)
qed

lemma state_a_Fields:
  "Fields state_a = [(''count'', ''3''), (''ratio'', ''2.5''), (''env'', dquote # ''prod'' @ [dquote])]"
  by code_simp

lemma state_a_rendered_eq: "state_a_rendered = snd (Prettify plain_ext state_a True)"
  by (simp add: state_a_rendered_def)

lemma state_a_rendered_Fields: "Fields state_a_rendered = []"
  by code_simp

lemma line_b_handled: "fst (TryHandle plain_ext state_a_rendered line_b)"
  by code_simp

lemma line_b_TryHandle: "TryHandle plain_ext state_a_rendered line_b = (True, state_b)"
  using line_b_handled by (simp add: state_b_def prod_eq_iff)

lemma state_b_Fields:
  "Fields state_b = [(''count'', ''4''), (''env'', dquote # ''prod'' @ [dquote])]"
  by code_simp

lemma state_b_tokens: "joinKVs plain_ext state_b True ''='' = Inr [''count=4'']"
  by code_simp

lemma state_a_tokens:
  "joinKVs plain_ext state_a True ''='' =
     Inr [''count=3'', ''ratio=2.5'', ''env='' @ dquote # ''prod...'']"
  by code_simp

lemma state_a_tokens_lexicographic:
  "joinKVs plain_ext (state_a\<lparr>Opts := Some (plain_options\<lparr>SortLongest := False\<rparr>)\<rparr>) True ''='' =
     Inr [''count=3'', ''env='' @ dquote # ''prod...'', ''ratio=2.5'']"
  by code_simp

lemma line_c_fails: "fst (UnmarshalJSON plain_ext state_a_rendered line_c) \<noteq> None"
  by code_simp

lemma line_g_handled: "fst (TryHandle plain_ext state_c line_g)"
  by code_simp

lemma line_g_TryHandle: "TryHandle plain_ext state_c line_g = (True, state_g)"
  using line_g_handled by (simp add: state_g_def prod_eq_iff)

lemma state_g_Fields: "Fields state_g = [(''env'', dquote # ''prod'' @ [dquote])]"
  by code_simp

lemma state_g_tokens: "joinKVs plain_ext state_g True ''='' = Inr [''env='' @ dquote # ''prod...'']"
  by code_simp

lemma state_h_Level: "Level state_h = dotless_ii"
  by code_simp

lemma state_h_Message: "Message state_h = []"
  by code_simp

lemma ToUpper_dotless_ii: "strings_ToUpper plain_ext dotless_ii = ''II''"
  by (simp add: plain_ext_def)

lemma level_abbrev_ok: "level_abbrev plain_ext ''ok'' = Inr ''OK''"
  by code_simp

lemma level_abbrev_warning: "level_abbrev plain_ext ''warning'' = Inr ''WARN''"
  by code_simp

lemma token_count_4: "kv_token plain_ext plain_options ''='' ''count'' ''4'' = Inr ''count=4''"
  by code_simp

lemma token_env:
  "kv_token plain_ext plain_options ''='' ''env'' (dquote # ''prod'' @ [dquote]) =
     Inr (''env='' @ dquote # ''prod...'')"
  by code_simp

lemma line_i_handled:
  "fst (TryHandle plain_ext (new_handler plain_ext (Some plain_options)) line_i)"
  by code_simp

lemma line_i_delta:
  "map_of (Fields (snd (TryHandle plain_ext (new_handler plain_ext (Some plain_options)) line_i)))
     ''delta'' = Some ''-2''"
  by code_simp

lemma line_j_decodes: "json_Unmarshal plain_ext line_j = Some raw_j"
  by code_simp


section \<open>The claims\<close>

subsection \<open>C1: the display string of a number\<close>

text \<open>
  The source tests \<^verbatim>\<open>v-math.Floor(v) < 0.000001 && v < 1e9\<close>: the distance to the integer
  below, not to the nearest integer, and the value, not its magnitude.  A value just
  below an integer therefore takes the \<^verbatim>\<open>%g\<close> branch, and a negative integer of any
  magnitude takes the \<^verbatim>\<open>%d\<close> branch.
\<close>

lemma format_value_below_integer:
  "\<bar>(6291455 / 2097152 :: rat) - of_int (round (6291455 / 2097152 :: rat))\<bar> < 1 / 1000000 \<and>
   \<bar>6291455 / 2097152 :: rat\<bar> < 1000000000 \<and>
   format_value ext (VFloat64 (6291455 / 2097152)) = fmt_g ext (6291455 / 2097152)"
proof -
  have f: "\<lfloor>6291455 / 2097152 :: rat\<rfloor> = 2" by (rule floor_unique) simp_all
  have r: "round (6291455 / 2097152 :: rat) = 3"
    unfolding round_def by (rule floor_unique) simp_all
  show ?thesis
    by (simp add: format_value_def f r float64_0_000001_def)
qed

lemma format_value_large_negative:
  "\<not> \<bar>- 10000000000 :: rat\<bar> < 1000000000 \<and>
   format_value ext (VFloat64 (- 10000000000)) = ''-10000000000''"
  by (simp add: format_value_def float64_0_000001_def int_of_float64_def trunc_def
      fmt_d_def digits.simps)

text \<open>
  What the source does with a number \<open>v\<close> that is not negative or is an integer.  If
  \<open>v - \<lfloor>v\<rfloor> < 0.000001\<close> and \<open>v < 10\<^sup>9\<close> (and \<open>v \<ge> -2\<^sup>6\<^sup>3\<close>), the display string is the decimal
  string of \<open>round v\<close>, which is \<open>\<lfloor>v\<rfloor>\<close>.  If \<open>v - \<lfloor>v\<rfloor> \<ge> 0.000001\<close> or \<open>v \<ge> 10\<^sup>9\<close>, it is the
  \<^verbatim>\<open>%g\<close> rendering of \<open>v\<close>.  Both cases agree with the computation in \<^verbatim>\<open>float64\<close>: on the
  values of the first the subtraction is exact, and in the second rounding to nearest
  cannot take a difference that is at least the constant below it.
\<close>

lemma UnmarshalJSON_number:
  assumes "json_Unmarshal ext d = Some raw" and "distinct (map fst raw)"
    and "fst (UnmarshalJSON ext h d) = None"
    and "key \<notin> {''time'', ''ts'', ''msg'', ''message'', ''level'', ''lvl''}"
    and "map_of raw key = Some (VFloat64 v)"
  shows "(v - of_int \<lfloor>v\<rfloor> < float64_0_000001 \<and> v < 1000000000 \<and>
          (0 \<le> v \<or> v = of_int \<lfloor>v\<rfloor>) \<and> - (2 ^ 63) \<le> v \<longrightarrow>
            round v = \<lfloor>v\<rfloor> \<and>
            map_of (Fields (snd (UnmarshalJSON ext h d))) key = Some (fmt_d (round v)))
       \<and> (\<not> (v - of_int \<lfloor>v\<rfloor> < float64_0_000001 \<and> v < 1000000000) \<longrightarrow>
            map_of (Fields (snd (UnmarshalJSON ext h d))) key = Some (fmt_g ext v))"
proof -
  have ok: "UnmarshalJSON ext h d = (None, snd (UnmarshalJSON ext h d))"
    using assms(3) by (cases "UnmarshalJSON ext h d") simp
  have f: "map_of (Fields (snd (UnmarshalJSON ext h d))) key = Some (format_value ext (VFloat64 v))"
    using ok assms(1,2,4,5) by (rule UnmarshalJSON_field)
  show ?thesis
    by (intro conjI impI) (simp_all add: f format_value_integer format_value_float round_floor)
qed

lemma UnmarshalJSON_number_example:
  "json_Unmarshal plain_ext line_a = Some raw_a \<and> distinct (map fst raw_a) \<and>
   fst (UnmarshalJSON plain_ext (new_handler plain_ext None) line_a) = None \<and>
   map_of raw_a ''count'' = Some (VFloat64 3) \<and>
   map_of (Fields (snd (UnmarshalJSON plain_ext (new_handler plain_ext None) line_a))) ''count''
     = Some ''3'' \<and>
   map_of raw_a ''ratio'' = Some (VFloat64 (5 / 2)) \<and>
   map_of (Fields (snd (UnmarshalJSON plain_ext (new_handler plain_ext None) line_a))) ''ratio''
     = Some (fmt_g plain_ext (5 / 2))"
proof -
  have ok: "fst (UnmarshalJSON plain_ext (new_handler plain_ext None) line_a) = None"
    by (rule line_a_ok)
  have c: "map_of raw_a ''count'' = Some (VFloat64 3)"
    and r: "map_of raw_a ''ratio'' = Some (VFloat64 (5 / 2))"
    by (simp_all add: raw_a_def)
  have k: "''count'' \<notin> {''time'', ''ts'', ''msg'', ''message'', ''level'', ''lvl''}"
    "''ratio'' \<notin> {''time'', ''ts'', ''msg'', ''message'', ''level'', ''lvl''}"
    by simp_all
  have three: "fmt_d (round (3 :: rat)) = ''3''"
    by (simp add: fmt_d_def digits.simps)
  have half: "\<lfloor>5 / 2 :: rat\<rfloor> = 2"
    by (rule floor_unique) simp_all
  note a = UnmarshalJSON_number [OF line_a_decodes raw_a_distinct ok k(1) c]
  note b = UnmarshalJSON_number [OF line_a_decodes raw_a_distinct ok k(2) r]
  have "map_of (Fields (snd (UnmarshalJSON plain_ext (new_handler plain_ext None) line_a))) ''count''
     = Some ''3''"
    using a three by (simp add: float64_0_000001_def)
  moreover have "map_of (Fields (snd (UnmarshalJSON plain_ext (new_handler plain_ext None) line_a))) ''ratio''
     = Some (fmt_g plain_ext (5 / 2))"
    using b half by (simp add: float64_0_000001_def)
  ultimately show ?thesis
    using line_a_decodes raw_a_distinct ok c r by simp
qed

text \<open>
  Claim C1 has a number within \<open>10\<^sup>-\<^sup>6\<close> of an integer, and of magnitude below \<open>10\<^sup>9\<close>,
  shown as that integer.  The source does not do so at \<open>v = -3 + 2\<^sup>-\<^sup>2\<^sup>1\<close>, a \<^verbatim>\<open>float64\<close>
  within \<open>10\<^sup>-\<^sup>6\<close> of \<open>-3\<close>: the test on \<^verbatim>\<open>math.Floor\<close> takes it for an integer, and
  \<^verbatim>\<open>int(v)\<close>, which truncates towards zero, prints it as \<open>-2\<close>.  So does the handler on a
  line that holds this number.
\<close>

theorem C1_negative_near_integer:
  "\<bar>(- 6291455 / 2097152 :: rat) - of_int (round (- 6291455 / 2097152 :: rat))\<bar> < 1 / 1000000 \<and>
   \<bar>- 6291455 / 2097152 :: rat\<bar> < 1000000000 \<and>
   fmt_d (round (- 6291455 / 2097152 :: rat)) = ''-3'' \<and>
   format_value ext (VFloat64 (- 6291455 / 2097152)) = ''-2'' \<and>
   map_of raw_i ''delta'' = Some (VFloat64 (- 6291455 / 2097152)) \<and>
   fst (TryHandle plain_ext (new_handler plain_ext (Some plain_options)) line_i) \<and>
   map_of (Fields (snd (TryHandle plain_ext (new_handler plain_ext (Some plain_options)) line_i)))
     ''delta'' = Some ''-2''"
proof -
  have 1: "\<bar>(- 6291455 / 2097152 :: rat) - of_int (round (- 6291455 / 2097152 :: rat))\<bar>
      < 1 / 1000000"
    by code_simp
  have 2: "\<bar>- 6291455 / 2097152 :: rat\<bar> < 1000000000"
    by code_simp
  have 3: "fmt_d (round (- 6291455 / 2097152 :: rat)) = ''-3''"
    by code_simp
  have 4: "format_value ext (VFloat64 (- 6291455 / 2097152)) = ''-2''"
    by code_simp
  have 5: "map_of raw_i ''delta'' = Some (VFloat64 (- 6291455 / 2097152))"
    by code_simp
  show ?thesis
    using 1 2 3 4 5 line_i_handled line_i_delta by (intro conjI)
qed

subsection \<open>C2: the level abbreviation\<close>

text \<open>
  Claim C2 says that the abbreviation always succeeds.  The source slices the upper-cased
  level at \<^verbatim>\<open>imin(4, len(h.Level))\<close>, the length of the level before it is upper-cased.
  Whenever upper-casing makes the level shorter than that bound, the slice is out of
  range and \<^verbatim>\<open>Prettify\<close> panics.  \<^verbatim>\<open>strings.ToUpper\<close> shortens a string such as
  \<open>dotless_ii\<close>: four bytes become two.
\<close>

theorem C2_level_abbrev_panics:
  assumes "length (strings_ToUpper ext (Level h)) < length (Level h)"
    and "length (strings_ToUpper ext (Level h)) < 4"
    and "Message h = [] \<or> Opts h \<noteq> None \<or> buf h = None"
  shows "level_abbrev ext (Level h) = Inl SliceBoundsOutOfRange
       \<and> fst (Prettify ext h skipUnchanged) = Inl SliceBoundsOutOfRange"
proof
  show l: "level_abbrev ext (Level h) = Inl SliceBoundsOutOfRange"
    using assms(1,2) by (simp add: level_abbrev_def slice_to_def imin_def)
  have lv: "Level (init_out ext h) = Level h" by (simp add: init_out_def)
  have ms: "Message (init_out ext h) = Message h" by (simp add: init_out_def)
  have "Message h = [] \<or> Opts (init_out ext h) \<noteq> None"
    using assms(3) by (auto simp: init_out_def split: option.splits)
  then have "\<exists>msg. message_text ext (init_out ext h) = Inr msg"
    by (cases "Opts (init_out ext h)") (auto simp: message_text_def ms)
  then obtain msg where "message_text ext (init_out ext h) = Inr msg" ..
  then have "line_text ext (init_out ext h) skipUnchanged = Inl SliceBoundsOutOfRange"
    by (simp add: line_text_def lv l)
  then show "fst (Prettify ext h skipUnchanged) = Inl SliceBoundsOutOfRange"
    by (simp add: Prettify_def Let_def)
qed

theorem C2_level_abbrev_panics_witness:
  "length (strings_ToUpper plain_ext (Level state_h)) < length (Level state_h) \<and>
   length (strings_ToUpper plain_ext (Level state_h)) < 4 \<and>
   Message state_h = [] \<and>
   level_abbrev plain_ext (Level state_h) = Inl SliceBoundsOutOfRange \<and>
   fst (Prettify plain_ext state_h True) = Inl SliceBoundsOutOfRange"
proof -
  have 1: "length (strings_ToUpper plain_ext (Level state_h)) < length (Level state_h)"
    and 2: "length (strings_ToUpper plain_ext (Level state_h)) < 4"
    by (simp_all add: state_h_Level ToUpper_dotless_ii) (simp_all add: dotless_ii_def)
  have 3: "Message state_h = [] \<or> Opts state_h \<noteq> None \<or> buf state_h = None"
    by (simp add: state_h_Message)
  show ?thesis
    using C2_level_abbrev_panics [OF 1 2 3, of True] 1 2 state_h_Message by simp
qed

subsection \<open>C3: unchanged fields are skipped\<close>

text \<open>
  Claim C3.  A record is rendered, the next line is handled, and its record is rendered
  with skip-unchanged enabled.  Let \<open>k\<close> pass the visibility predicate and hold \<open>v\<close> in
  the new record.  If the record rendered before held \<open>v\<close> under \<open>k\<close> too, and the
  override does not force \<open>k\<close>, the tokens are those of the new record without \<open>k\<close>: no
  token comes from \<open>k\<close>.  If the record rendered before did not hold \<open>v\<close> under \<open>k\<close>, the
  token of \<open>k\<close> is among the tokens.
\<close>

theorem C3_skip_unchanged:
  assumes h1: "h1 = snd (Prettify ext h0 skip0)"
    and h2: "TryHandle ext h1 d = (True, h2)"
    and o: "Opts h2 = Some opts"
    and m: "map_of (Fields h2) k = Some v"
    and s: "shouldShowKey opts k"
  shows "(map_of (Fields h0) k = Some v \<and> \<not> shouldShowUnchanged opts k \<longrightarrow>
            joinKVs ext h2 True sep =
            joinKVs ext (h2\<lparr>Fields := AList.delete k (Fields h2)\<rparr>) True sep)
       \<and> (map_of (Fields h0) k \<noteq> Some v \<longrightarrow>
            (\<forall>kv. joinKVs ext h2 True sep = Inr kv \<longrightarrow>
               (\<exists>tok. kv_token ext opts sep k v = Inr tok \<and> tok \<in> set kv)))"
proof -
  obtain opts1 b where c: "h1 = clear ext (h0\<lparr>Opts := opts1, buf := b\<rparr>)"
    using Prettify_state [of ext h0 skip0] h1 by auto
  have f1: "Fields h1 = []" and l1: "last_fields h1 = Fields h0"
    by (simp_all add: c clear_def)
  have t: "fst (TryHandle ext h1 d)" and e: "h2 = snd (TryHandle ext h1 d)"
    by (simp_all add: h2)
  have l2: "last_fields h2 = Fields h0"
    using TryHandle_ok_last_fields [OF t] by (simp add: e l1)
  have "fst (UnmarshalJSON ext h1 d) = None" using t by (rule UnmarshalJSON_ok_fst)
  then have "distinct (map fst (Fields (snd (UnmarshalJSON ext h1 d))))"
    by (rule UnmarshalJSON_distinct) (simp add: f1)
  then have d2: "distinct (map fst (Fields h2))"
    using TryHandle_ok [OF t] by (simp add: e)
  have mem: "(k, v) \<in> set (Fields h2)" using m by (rule map_of_SomeD)
  show ?thesis
  proof (intro conjI impI allI)
    assume "map_of (Fields h0) k = Some v \<and> \<not> shouldShowUnchanged opts k"
    then have "unchanged opts (last_fields h2) k v"
      by (simp add: unchanged_iff l2)
    with o d2 m show "joinKVs ext h2 True sep =
        joinKVs ext (h2\<lparr>Fields := AList.delete k (Fields h2)\<rparr>) True sep"
      by (rule joinKVs_suppressed [symmetric])
  next
    fix kv
    assume n: "map_of (Fields h0) k \<noteq> Some v" and j: "joinKVs ext h2 True sep = Inr kv"
    from n have "\<not> (\<not> shouldShowKey opts k \<or> True \<and> unchanged opts (last_fields h2) k v)"
      using s by (simp add: unchanged_iff l2)
    with o j mem show "\<exists>tok. kv_token ext opts sep k v = Inr tok \<and> tok \<in> set kv"
      by (rule joinKVs_present)
  qed
qed

theorem C3_skip_unchanged_witness:
  "state_a_rendered = snd (Prettify plain_ext state_a True) \<and>
   TryHandle plain_ext state_a_rendered line_b = (True, state_b) \<and>
   Opts state_b = Some plain_options \<and>
   shouldShowKey plain_options ''env'' \<and> \<not> shouldShowUnchanged plain_options ''env'' \<and>
   map_of (Fields state_b) ''env'' = Some (dquote # ''prod'' @ [dquote]) \<and>
   map_of (Fields state_a) ''env'' = Some (dquote # ''prod'' @ [dquote]) \<and>
   joinKVs plain_ext state_b True ''='' =
     joinKVs plain_ext (state_b\<lparr>Fields := AList.delete ''env'' (Fields state_b)\<rparr>) True ''='' \<and>
   shouldShowKey plain_options ''count'' \<and>
   map_of (Fields state_b) ''count'' = Some ''4'' \<and>
   map_of (Fields state_a) ''count'' \<noteq> Some ''4'' \<and>
   joinKVs plain_ext state_b True ''='' = Inr [''count=4''] \<and>
   (\<exists>tok. kv_token plain_ext plain_options ''='' ''count'' ''4'' = Inr tok \<and>
      tok \<in> set [''count=4''])"
proof -
  have s: "shouldShowKey plain_options ''env''" "\<not> shouldShowUnchanged plain_options ''env''"
    "shouldShowKey plain_options ''count''"
    by (simp_all add: plain_options_def)
  have e: "map_of (Fields state_b) ''env'' = Some (dquote # ''prod'' @ [dquote])"
    "map_of (Fields state_a) ''env'' = Some (dquote # ''prod'' @ [dquote])"
    by (simp_all add: state_a_Fields state_b_Fields)
  have c: "map_of (Fields state_b) ''count'' = Some ''4''"
    "map_of (Fields state_a) ''count'' \<noteq> Some ''4''"
    by (simp_all add: state_a_Fields state_b_Fields)
  note te = C3_skip_unchanged [OF state_a_rendered_eq line_b_TryHandle state_Opts(3) e(1) s(1)]
  note tc = C3_skip_unchanged [OF state_a_rendered_eq line_b_TryHandle state_Opts(3) c(1) s(3)]
  have 1: "joinKVs plain_ext state_b True ''='' =
     joinKVs plain_ext (state_b\<lparr>Fields := AList.delete ''env'' (Fields state_b)\<rparr>) True ''=''"
    using te e(2) s(2) by blast
  have 2: "\<exists>tok. kv_token plain_ext plain_options ''='' ''count'' ''4'' = Inr tok \<and>
      tok \<in> set [''count=4'']"
    using tc c(2) state_b_tokens by blast
  show ?thesis
    using state_a_rendered_eq line_b_TryHandle state_Opts(3) s e c 1 2 state_b_tokens
    by (intro conjI) simp_all
qed

subsection \<open>C4: the order of the tokens\<close>

text \<open>
  Claim C4.  Without sort-longest the tokens are in lexicographic order.  With it they
  are in ascending order of length, and two tokens of the same length are in
  lexicographic order.
\<close>

theorem C4_token_order:
  assumes "Opts h = Some opts" and "joinKVs ext h skipUnchanged sep = Inr kv"
  shows "(\<not> SortLongest opts \<longrightarrow> sorted kv)
       \<and> (SortLongest opts \<longrightarrow>
            sorted (map length kv) \<and>
            (\<forall>i j. i < j \<and> j < length kv \<and> length (kv ! i) = length (kv ! j) \<longrightarrow>
               kv ! i \<le> kv ! j))"
proof -
  from assms obtain out where
    kv: "kv = (if SortLongest opts then sort_Stable_byLongest (sort out) else sort out)"
    by (auto simp: joinKVs_def split: sum.splits)
  show ?thesis
  proof (intro conjI impI allI)
    assume "\<not> SortLongest opts"
    then show "sorted kv" by (simp add: kv)
  next
    assume "SortLongest opts"
    then show "sorted (map length kv)"
      by (simp add: kv sort_Stable_byLongest_def)
  next
    fix i j
    assume l: "SortLongest opts"
      and ij: "i < j \<and> j < length kv \<and> length (kv ! i) = length (kv ! j)"
    have "sorted_wrt (\<lambda>a b. length a < length b \<or> length a = length b \<and> a \<le> b) kv"
      using l by (simp add: kv sort_Stable_byLongest_def sort_key_length_order)
    then have "\<forall>i j. i < j \<longrightarrow> j < length kv \<longrightarrow>
        length (kv ! i) < length (kv ! j) \<or>
        length (kv ! i) = length (kv ! j) \<and> kv ! i \<le> kv ! j"
      by (simp add: sorted_wrt_iff_nth_less)
    with ij have "length (kv ! i) < length (kv ! j) \<or>
        length (kv ! i) = length (kv ! j) \<and> kv ! i \<le> kv ! j"
      by blast
    with ij show "kv ! i \<le> kv ! j" by auto
  qed
qed

theorem C4_token_order_witness:
  "Opts state_a = Some plain_options \<and> SortLongest plain_options \<and>
   joinKVs plain_ext state_a True ''='' =
     Inr [''count=3'', ''ratio=2.5'', ''env='' @ dquote # ''prod...''] \<and>
   sorted (map length [''count=3'', ''ratio=2.5'', ''env='' @ dquote # ''prod...'']) \<and>
   Opts (state_a\<lparr>Opts := Some (plain_options\<lparr>SortLongest := False\<rparr>)\<rparr>) =
     Some (plain_options\<lparr>SortLongest := False\<rparr>) \<and>
   \<not> SortLongest (plain_options\<lparr>SortLongest := False\<rparr>) \<and>
   joinKVs plain_ext (state_a\<lparr>Opts := Some (plain_options\<lparr>SortLongest := False\<rparr>)\<rparr>) True ''='' =
     Inr [''count=3'', ''env='' @ dquote # ''prod...'', ''ratio=2.5''] \<and>
   sorted [''count=3'', ''env='' @ dquote # ''prod...'', ''ratio=2.5'']"
proof -
  have l: "SortLongest plain_options" by (simp add: plain_options_def)
  have o: "Opts (state_a\<lparr>Opts := Some (plain_options\<lparr>SortLongest := False\<rparr>)\<rparr>) =
     Some (plain_options\<lparr>SortLongest := False\<rparr>)"
    by simp
  have n: "\<not> SortLongest (plain_options\<lparr>SortLongest := False\<rparr>)" by simp
  note a = C4_token_order [OF state_Opts(1) state_a_tokens]
  note b = C4_token_order [OF o state_a_tokens_lexicographic]
  have 1: "sorted (map length [''count=3'', ''ratio=2.5'', ''env='' @ dquote # ''prod...''])"
    using a l by blast
  have 2: "sorted [''count=3'', ''env='' @ dquote # ''prod...'', ''ratio=2.5'']"
    using b n by blast
  show ?thesis
    using state_Opts(1) l state_a_tokens o n state_a_tokens_lexicographic 1 2
    by (intro conjI)
qed

subsection \<open>C5: when normalization fails\<close>

text \<open>
  Claim C5, as amended.  \<^verbatim>\<open>UnmarshalJSON\<close> returns an error exactly when the line does not decode,
  or the string timestamp that the source looks up (the string under \<^verbatim>\<open>time\<close>, else the
  string under \<^verbatim>\<open>ts\<close>) is refused by \<^verbatim>\<open>tryParseTime\<close>.  When it returns an error,
  \<^verbatim>\<open>TryHandle\<close> reports the line as not handled, \<^verbatim>\<open>UnmarshalJSON\<close> has changed nothing
  but possibly \<^verbatim>\<open>h.Time\<close>, and after a \<^verbatim>\<open>TryHandle\<close> whose probe passed the record is
  empty.  When the decoded object has neither a \<^verbatim>\<open>time\<close> nor a \<^verbatim>\<open>ts\<close> key,
  \<^verbatim>\<open>UnmarshalJSON\<close> succeeds and leaves \<^verbatim>\<open>h.Time\<close> as it was, which is the zero value on
  a new or cleared handler.
\<close>

theorem C5_normalization_failure:
  "((fst (UnmarshalJSON ext h d) \<noteq> None) =
      (json_Unmarshal ext d = None \<or>
       (\<exists>raw s. json_Unmarshal ext d = Some raw \<and>
          (string_at raw ''time'' = Some s \<or>
           string_at raw ''time'' = None \<and> string_at raw ''ts'' = Some s) \<and>
          \<not> snd (tryParseTime ext s))))
   \<and> (fst (UnmarshalJSON ext h d) \<noteq> None \<longrightarrow>
        \<not> fst (TryHandle ext h d) \<and>
        (\<exists>t. snd (UnmarshalJSON ext h d) = h\<lparr>Time := t\<rparr>) \<and>
        (bytes_Contains d time_marker \<or> bytes_Contains d ts_marker \<longrightarrow>
           Level (snd (TryHandle ext h d)) = [] \<and> Message (snd (TryHandle ext h d)) = [] \<and>
           Time (snd (TryHandle ext h d)) = time_zero ext \<and>
           Fields (snd (TryHandle ext h d)) = []))
   \<and> (\<forall>raw. json_Unmarshal ext d = Some raw \<and> ''time'' \<notin> fst ` set raw \<and>
          ''ts'' \<notin> fst ` set raw \<longrightarrow>
          fst (UnmarshalJSON ext h d) = None \<and> Time (snd (UnmarshalJSON ext h d)) = Time h)"
proof (intro conjI impI allI)
  show "(fst (UnmarshalJSON ext h d) \<noteq> None) =
      (json_Unmarshal ext d = None \<or>
       (\<exists>raw s. json_Unmarshal ext d = Some raw \<and>
          (string_at raw ''time'' = Some s \<or>
           string_at raw ''time'' = None \<and> string_at raw ''ts'' = Some s) \<and>
          \<not> snd (tryParseTime ext s)))"
  proof (cases "json_Unmarshal ext d")
    case None
    then show ?thesis by (simp add: UnmarshalJSON_fst)
  next
    case (Some raw)
    show ?thesis
      using extract_time_fails_iff [of ext h raw] by (simp add: UnmarshalJSON_fst Some)
  qed
next
  assume "fst (UnmarshalJSON ext h d) \<noteq> None"
  then show "\<not> fst (TryHandle ext h d)" by (rule TryHandle_fails(1))
next
  assume "fst (UnmarshalJSON ext h d) \<noteq> None"
  then show "\<exists>t. snd (UnmarshalJSON ext h d) = h\<lparr>Time := t\<rparr>"
    by (rule UnmarshalJSON_fails_state)
next
  assume f: "fst (UnmarshalJSON ext h d) \<noteq> None"
    and p: "bytes_Contains d time_marker \<or> bytes_Contains d ts_marker"
  have c: "snd (TryHandle ext h d) = clear ext (snd (UnmarshalJSON ext h d))"
    using f p by (rule TryHandle_fails(2))
  show "Level (snd (TryHandle ext h d)) = []" "Message (snd (TryHandle ext h d)) = []"
    "Time (snd (TryHandle ext h d)) = time_zero ext" "Fields (snd (TryHandle ext h d)) = []"
    by (simp_all add: c clear_def)
next
  fix raw
  assume "json_Unmarshal ext d = Some raw \<and> ''time'' \<notin> fst ` set raw \<and> ''ts'' \<notin> fst ` set raw"
  then show "fst (UnmarshalJSON ext h d) = None" "Time (snd (UnmarshalJSON ext h d)) = Time h"
    using UnmarshalJSON_no_key [of ext d raw h] by simp_all
qed

theorem C5_normalization_failure_witness:
  "json_Unmarshal plain_ext line_c = Some raw_c \<and>
   string_at raw_c ''time'' = Some ''yesterday'' \<and>
   \<not> snd (tryParseTime plain_ext ''yesterday'') \<and>
   fst (UnmarshalJSON plain_ext (new_handler plain_ext None) line_c) \<noteq> None \<and>
   bytes_Contains line_c time_marker \<and>
   \<not> fst (TryHandle plain_ext (new_handler plain_ext None) line_c) \<and>
   Fields (snd (TryHandle plain_ext (new_handler plain_ext None) line_c)) = [] \<and>
   Level (snd (TryHandle plain_ext (new_handler plain_ext None) line_c)) = [] \<and>
   json_Unmarshal plain_ext line_f = Some raw_f \<and>
   ''time'' \<notin> fst ` set raw_f \<and> ''ts'' \<notin> fst ` set raw_f \<and>
   fst (UnmarshalJSON plain_ext (new_handler plain_ext None) line_f) = None \<and>
   Time (snd (UnmarshalJSON plain_ext (new_handler plain_ext None) line_f)) = time_zero plain_ext"
proof -
  note c = C5_normalization_failure [of plain_ext "new_handler plain_ext None" line_c]
  note f = C5_normalization_failure [of plain_ext "new_handler plain_ext None" line_f]
  have s: "string_at raw_c ''time'' = Some ''yesterday''"
    by (simp add: raw_c_def string_at_def)
  have p: "\<not> snd (tryParseTime plain_ext ''yesterday'')"
    by (simp add: plain_ext_def)
  have fails: "fst (UnmarshalJSON plain_ext (new_handler plain_ext None) line_c) \<noteq> None"
    using c line_c_decodes s p by blast
  have k: "''time'' \<notin> fst ` set raw_f" "''ts'' \<notin> fst ` set raw_f"
    by (simp_all add: raw_f_def)
  have z: "Time (new_handler plain_ext None) = time_zero plain_ext"
    by (simp add: new_handler_def)
  have "\<not> fst (TryHandle plain_ext (new_handler plain_ext None) line_c)"
    and "Fields (snd (TryHandle plain_ext (new_handler plain_ext None) line_c)) = []"
    and "Level (snd (TryHandle plain_ext (new_handler plain_ext None) line_c)) = []"
    using c fails line_c_probe by simp_all
  moreover have "fst (UnmarshalJSON plain_ext (new_handler plain_ext None) line_f) = None"
    and "Time (snd (UnmarshalJSON plain_ext (new_handler plain_ext None) line_f)) = time_zero plain_ext"
    using f line_f_decodes k z by simp_all
  ultimately show ?thesis
    using line_c_decodes s p fails line_c_probe line_f_decodes k by simp
qed

text \<open>
  The claim as it is written fails a line whenever a string under \<^verbatim>\<open>time\<close> or \<^verbatim>\<open>ts\<close>
  matches no layout.  The source does not look at \<^verbatim>\<open>ts\<close> when \<^verbatim>\<open>time\<close> holds a string: a
  line with a timestamp under \<^verbatim>\<open>time\<close> and the string \<^verbatim>\<open>yesterday\<close> under \<^verbatim>\<open>ts\<close> is
  accepted, and \<^verbatim>\<open>ts\<close> becomes a field.
\<close>

theorem C5_counterexample:
  "json_Unmarshal plain_ext line_j = Some raw_j \<and>
   map_of raw_j ''ts'' = Some (VString ''yesterday'') \<and>
   \<not> snd (tryParseTime plain_ext ''yesterday'') \<and>
   fst (UnmarshalJSON plain_ext (new_handler plain_ext None) line_j) = None \<and>
   fst (TryHandle plain_ext (new_handler plain_ext None) line_j) \<and>
   map_of (Fields (snd (UnmarshalJSON plain_ext (new_handler plain_ext None) line_j))) ''ts'' =
     Some (dquote # ''yesterday'' @ [dquote])"
  by code_simp

subsection \<open>C6: truncation\<close>




subsection \<open>C7: consumed keys are not fields\<close>

text \<open>
  Claim C7.  Let normalization of a line succeed on a handler whose fields hold none of
  the six reserved keys (the handler is new, or \<^verbatim>\<open>clear\<close> has run).  Then every key that
  was consumed is absent from the fields: \<^verbatim>\<open>time\<close> when it holds a string; \<^verbatim>\<open>ts\<close> when
  \<^verbatim>\<open>time\<close> holds no string and \<^verbatim>\<open>ts\<close> holds a string or a number; \<^verbatim>\<open>msg\<close> when it holds a
  string; \<^verbatim>\<open>message\<close> when \<^verbatim>\<open>msg\<close> holds no string and \<^verbatim>\<open>message\<close> does; \<^verbatim>\<open>level\<close> when it
  holds a string; \<^verbatim>\<open>lvl\<close> when \<^verbatim>\<open>level\<close> holds no string and \<^verbatim>\<open>lvl\<close> does.
\<close>

theorem C7_reserved_keys_absent:
  assumes dec: "json_Unmarshal ext d = Some raw"
    and ok: "fst (UnmarshalJSON ext h d) = None"
    and old: "fst ` set (Fields h) \<inter> {''time'', ''ts'', ''msg'', ''message'', ''level'', ''lvl''} = {}"
  shows "(string_at raw ''time'' \<noteq> None \<longrightarrow>
            ''time'' \<notin> fst ` set (Fields (snd (UnmarshalJSON ext h d))))
       \<and> (string_at raw ''time'' = None \<and>
           (string_at raw ''ts'' \<noteq> None \<or> (\<exists>i. map_of raw ''ts'' = Some (VInt64 i)) \<or>
            (\<exists>f. map_of raw ''ts'' = Some (VFloat64 f))) \<longrightarrow>
            ''ts'' \<notin> fst ` set (Fields (snd (UnmarshalJSON ext h d))))
       \<and> (string_at raw ''msg'' \<noteq> None \<longrightarrow>
            ''msg'' \<notin> fst ` set (Fields (snd (UnmarshalJSON ext h d))))
       \<and> (string_at raw ''msg'' = None \<and> string_at raw ''message'' \<noteq> None \<longrightarrow>
            ''message'' \<notin> fst ` set (Fields (snd (UnmarshalJSON ext h d))))
       \<and> (string_at raw ''level'' \<noteq> None \<longrightarrow>
            ''level'' \<notin> fst ` set (Fields (snd (UnmarshalJSON ext h d))))
       \<and> (string_at raw ''level'' = None \<and> string_at raw ''lvl'' \<noteq> None \<longrightarrow>
            ''lvl'' \<notin> fst ` set (Fields (snd (UnmarshalJSON ext h d))))"
proof -
  have "UnmarshalJSON ext h d = (None, snd (UnmarshalJSON ext h d))"
    using ok by (cases "UnmarshalJSON ext h d") simp
  then obtain raw' h1 raw1 h2 raw2 h3 raw3 where
    d': "json_Unmarshal ext d = Some raw'"
    and t: "extract_time ext h raw' = (None, h1, raw1)"
    and m: "extract_message h1 raw1 = (h2, raw2)"
    and l: "extract_level h2 raw2 = (h3, raw3)"
    and h': "snd (UnmarshalJSON ext h d) = set_fields ext h3 raw3"
    by (rule UnmarshalJSON_okE)
  from d' dec have [simp]: "raw' = raw" by simp
  have f3: "Fields h3 = Fields h"
    by (simp add: extract_time_props(1) [OF t] extract_message_props(1) [OF m]
        extract_level_props(1) [OF l])
  have keys: "fst ` set (Fields (snd (UnmarshalJSON ext h d))) = fst ` set raw3 \<union> fst ` set (Fields h)"
    by (simp add: h' set_fields_def keys_fold_update f3)
  have s32: "fst ` set raw3 \<subseteq> fst ` set raw2" by (rule extract_level_props(7) [OF l])
  have s21: "fst ` set raw2 \<subseteq> fst ` set raw1" by (rule extract_message_props(7) [OF m])
  have msg1: "string_at raw1 ''msg'' = string_at raw ''msg''"
    and message1: "string_at raw1 ''message'' = string_at raw ''message''"
    by (rule string_at_cong, rule extract_time_props(8) [OF t, simplified], simp_all)+
  have level2: "string_at raw2 ''level'' = string_at raw ''level''"
    by (rule string_at_cong)
      (simp add: extract_message_props(8) [OF m] extract_time_props(8) [OF t, simplified])
  have c1: "string_at raw ''time'' \<noteq> None \<Longrightarrow> ''time'' \<notin> fst ` set raw3"
    using extract_time_consumes(1) [OF t] s32 s21 by auto
  have c2: "string_at raw ''time'' = None \<Longrightarrow>
         string_at raw ''ts'' \<noteq> None \<or> (\<exists>i. map_of raw ''ts'' = Some (VInt64 i)) \<or>
           (\<exists>f. map_of raw ''ts'' = Some (VFloat64 f)) \<Longrightarrow> ''ts'' \<notin> fst ` set raw3"
    using extract_time_consumes(2) [OF t] s32 s21 by auto
  have c3: "string_at raw ''msg'' \<noteq> None \<Longrightarrow> ''msg'' \<notin> fst ` set raw3"
    using extract_message_consumes(1) [OF m] msg1 s32 by auto
  have c4: "string_at raw ''msg'' = None \<Longrightarrow> string_at raw ''message'' \<noteq> None \<Longrightarrow>
      ''message'' \<notin> fst ` set raw3"
    using extract_message_consumes(2) [OF m] msg1 message1 s32 by auto
  have c5: "string_at raw ''level'' \<noteq> None \<Longrightarrow> ''level'' \<notin> fst ` set raw3"
    using extract_level_consumes(1) [OF l] level2 by auto
  have c6: "string_at raw ''level'' = None \<Longrightarrow> ''lvl'' \<notin> fst ` set raw3"
    using extract_level_consumes(2) [OF l] level2 by auto
  have o: "''time'' \<notin> fst ` set (Fields h)" "''ts'' \<notin> fst ` set (Fields h)"
    "''msg'' \<notin> fst ` set (Fields h)" "''message'' \<notin> fst ` set (Fields h)"
    "''level'' \<notin> fst ` set (Fields h)" "''lvl'' \<notin> fst ` set (Fields h)"
    using old by blast+
  show ?thesis
    unfolding keys using c1 c2 c3 c4 c5 c6 o by blast
qed

theorem C7_reserved_keys_absent_witness:
  "json_Unmarshal plain_ext line_a = Some raw_a \<and>
   fst (UnmarshalJSON plain_ext (new_handler plain_ext None) line_a) = None \<and>
   string_at raw_a ''time'' \<noteq> None \<and> string_at raw_a ''msg'' \<noteq> None \<and>
   string_at raw_a ''level'' \<noteq> None \<and>
   ''time'' \<notin> fst ` set (Fields (snd (UnmarshalJSON plain_ext (new_handler plain_ext None) line_a))) \<and>
   ''msg'' \<notin> fst ` set (Fields (snd (UnmarshalJSON plain_ext (new_handler plain_ext None) line_a))) \<and>
   ''level'' \<notin> fst ` set (Fields (snd (UnmarshalJSON plain_ext (new_handler plain_ext None) line_a))) \<and>
   json_Unmarshal plain_ext line_b = Some raw_b \<and>
   fst (UnmarshalJSON plain_ext (new_handler plain_ext None) line_b) = None \<and>
   string_at raw_b ''time'' = None \<and> map_of raw_b ''ts'' = Some (VFloat64 1704067201) \<and>
   string_at raw_b ''level'' = None \<and> string_at raw_b ''lvl'' \<noteq> None \<and>
   ''ts'' \<notin> fst ` set (Fields (snd (UnmarshalJSON plain_ext (new_handler plain_ext None) line_b))) \<and>
   ''lvl'' \<notin> fst ` set (Fields (snd (UnmarshalJSON plain_ext (new_handler plain_ext None) line_b))) \<and>
   json_Unmarshal plain_ext line_g = Some raw_g \<and>
   fst (UnmarshalJSON plain_ext (new_handler plain_ext None) line_g) = None \<and>
   string_at raw_g ''time'' = None \<and> string_at raw_g ''ts'' \<noteq> None \<and>
   string_at raw_g ''msg'' = None \<and> string_at raw_g ''message'' \<noteq> None \<and>
   ''ts'' \<notin> fst ` set (Fields (snd (UnmarshalJSON plain_ext (new_handler plain_ext None) line_g))) \<and>
   ''message'' \<notin> fst ` set (Fields (snd (UnmarshalJSON plain_ext (new_handler plain_ext None) line_g)))"
proof -
  have a: "string_at raw_a ''time'' \<noteq> None" "string_at raw_a ''msg'' \<noteq> None"
    "string_at raw_a ''level'' \<noteq> None"
    by (simp_all add: raw_a_def string_at_def)
  have b: "string_at raw_b ''time'' = None" "map_of raw_b ''ts'' = Some (VFloat64 1704067201)"
    "string_at raw_b ''level'' = None" "string_at raw_b ''lvl'' \<noteq> None"
    by (simp_all add: raw_b_def string_at_def)
  have g: "string_at raw_g ''time'' = None" "string_at raw_g ''ts'' \<noteq> None"
    "string_at raw_g ''msg'' = None" "string_at raw_g ''message'' \<noteq> None"
    by (simp_all add: raw_g_def string_at_def)
  note ta = C7_reserved_keys_absent [OF line_a_decodes line_a_ok new_handler_no_reserved]
  note tb = C7_reserved_keys_absent [OF line_b_decodes line_b_ok new_handler_no_reserved]
  note tg = C7_reserved_keys_absent [OF line_g_decodes line_g_ok new_handler_no_reserved]
  have "''time'' \<notin> fst ` set (Fields (snd (UnmarshalJSON plain_ext (new_handler plain_ext None) line_a)))"
    and "''msg'' \<notin> fst ` set (Fields (snd (UnmarshalJSON plain_ext (new_handler plain_ext None) line_a)))"
    and "''level'' \<notin> fst ` set (Fields (snd (UnmarshalJSON plain_ext (new_handler plain_ext None) line_a)))"
    using ta a by simp_all
  moreover
  have "''ts'' \<notin> fst ` set (Fields (snd (UnmarshalJSON plain_ext (new_handler plain_ext None) line_b)))"
    and "''lvl'' \<notin> fst ` set (Fields (snd (UnmarshalJSON plain_ext (new_handler plain_ext None) line_b)))"
    using tb b by simp_all
  moreover
  have "''ts'' \<notin> fst ` set (Fields (snd (UnmarshalJSON plain_ext (new_handler plain_ext None) line_g)))"
    and "''message'' \<notin> fst ` set (Fields (snd (UnmarshalJSON plain_ext (new_handler plain_ext None) line_g)))"
    using tg g by simp_all
  ultimately show ?thesis
    using a b g line_a_decodes line_a_ok line_b_decodes line_b_ok line_g_decodes line_g_ok
    by simp
qed

subsection \<open>C8: the state after \<^verbatim>\<open>Prettify\<close>\<close>

text \<open>
  Claim C8.  Whatever the handler holds, and whether \<^verbatim>\<open>Prettify\<close> returns or panics, the
  handler afterwards has the former fields as its diff state, no fields, and an empty
  level, time and message.  It is \<^verbatim>\<open>clear\<close> applied to the handler with at most the
  options and the buffer set: nothing else on the path of \<^verbatim>\<open>Prettify\<close> writes the diff
  state or the record.  A line that \<^verbatim>\<open>TryHandle\<close> accepts next is therefore compared
  with the fields just rendered.
\<close>

theorem C8_Prettify_rotates:
  "last_fields (snd (Prettify ext h skipUnchanged)) = Fields h \<and>
   Fields (snd (Prettify ext h skipUnchanged)) = [] \<and>
   Level (snd (Prettify ext h skipUnchanged)) = [] \<and>
   Time (snd (Prettify ext h skipUnchanged)) = time_zero ext \<and>
   Message (snd (Prettify ext h skipUnchanged)) = [] \<and>
   (\<exists>opts b. snd (Prettify ext h skipUnchanged) = clear ext (h\<lparr>Opts := opts, buf := b\<rparr>)) \<and>
   (\<forall>d. fst (TryHandle ext (snd (Prettify ext h skipUnchanged)) d) \<longrightarrow>
      last_fields (snd (TryHandle ext (snd (Prettify ext h skipUnchanged)) d)) = Fields h)"
proof -
  obtain opts b where s: "snd (Prettify ext h skipUnchanged) = clear ext (h\<lparr>Opts := opts, buf := b\<rparr>)"
    using Prettify_state by blast
  have l: "last_fields (snd (Prettify ext h skipUnchanged)) = Fields h"
    by (simp add: s clear_def)
  show ?thesis
    using s by (auto simp: l TryHandle_ok_last_fields) (simp_all add: clear_def)
qed

theorem C8_Prettify_rotates_witness:
  "fst (TryHandle plain_ext (snd (Prettify plain_ext state_a True)) line_b) \<and>
   last_fields (snd (TryHandle plain_ext (snd (Prettify plain_ext state_a True)) line_b)) =
     Fields state_a \<and>
   Fields (snd (Prettify plain_ext state_a True)) = []"
proof -
  have "fst (TryHandle plain_ext (snd (Prettify plain_ext state_a True)) line_b)"
    using line_b_handled by (simp add: state_a_rendered_def)
  then show ?thesis
    using C8_Prettify_rotates [of plain_ext state_a True] by blast
qed

subsection \<open>C9: the quotes count towards the limit\<close>

text \<open>
  Claim C9, as amended.  Truncation is enabled and the limit is at least 1.  The display
  string of a string value is its escaped text between two quotes, so it is two
  characters longer than the text.  If it is longer than the limit, it is shown as the
  opening quote, the first limit-minus-one characters of the text and \<^verbatim>\<open>...\<close>: the closing
  quote is cut off.  If it is not longer than the limit, it is shown with both quotes.
\<close>

theorem C9_quotes_count:
  assumes "Truncates opts" and "1 \<le> TruncateLength opts"
  shows "format_value ext (VString s) = dquote # strconv_escape ext s @ [dquote]
       \<and> (TruncateLength opts < int (length (strconv_escape ext s)) + 2 \<longrightarrow>
           truncate_value opts (format_value ext (VString s)) =
             Inr (dquote # take (nat (TruncateLength opts) - 1) (strconv_escape ext s) @ ''...''))
       \<and> (int (length (strconv_escape ext s)) + 2 \<le> TruncateLength opts \<longrightarrow>
           truncate_value opts (format_value ext (VString s)) =
             Inr (dquote # strconv_escape ext s @ [dquote]))"
proof (intro conjI impI)
  show q: "format_value ext (VString s) = dquote # strconv_escape ext s @ [dquote]"
    by (simp add: format_value_def fmt_q_def)
  {
    assume l: "TruncateLength opts < int (length (strconv_escape ext s)) + 2"
    obtain n where n: "nat (TruncateLength opts) = Suc n"
      using assms(2) by (cases "nat (TruncateLength opts)") auto
    have "n \<le> length (strconv_escape ext s)" using l n by linarith
    then show "truncate_value opts (format_value ext (VString s)) =
             Inr (dquote # take (nat (TruncateLength opts) - 1) (strconv_escape ext s) @ ''...'')"
      using assms l by (simp add: q truncate_value_def slice_to_def n)
  }
  {
    assume "int (length (strconv_escape ext s)) + 2 \<le> TruncateLength opts"
    then show "truncate_value opts (format_value ext (VString s)) =
             Inr (dquote # strconv_escape ext s @ [dquote])"
      by (simp add: q truncate_value_def)
  }
qed

theorem C9_quotes_count_witness:
  "Truncates plain_options \<and> 1 \<le> TruncateLength plain_options \<and>
   format_value plain_ext (VString ''prod'') = dquote # ''prod'' @ [dquote] \<and>
   TruncateLength plain_options < int (length (strconv_escape plain_ext ''prod'')) + 2 \<and>
   truncate_value plain_options (format_value plain_ext (VString ''prod'')) =
     Inr (dquote # ''prod...'') \<and>
   int (length (strconv_escape plain_ext ''ok'')) + 2 \<le> TruncateLength plain_options \<and>
   truncate_value plain_options (format_value plain_ext (VString ''ok'')) =
     Inr (dquote # ''ok'' @ [dquote])"
proof -
  have t: "Truncates plain_options" and n: "1 \<le> TruncateLength plain_options"
    by (simp_all add: plain_options_def)
  have e: "strconv_escape plain_ext ''prod'' = ''prod''" "strconv_escape plain_ext ''ok'' = ''ok''"
    by (simp_all add: plain_ext_def)
  have l: "TruncateLength plain_options = 5" by (simp add: plain_options_def)
  note p = C9_quotes_count [OF t n, of plain_ext "''prod''"]
  note k = C9_quotes_count [OF t n, of plain_ext "''ok''"]
  have c1: "TruncateLength plain_options < int (length (strconv_escape plain_ext ''prod'')) + 2"
    and c2: "int (length (strconv_escape plain_ext ''ok'')) + 2 \<le> TruncateLength plain_options"
    by (simp_all add: e l)
  have "format_value plain_ext (VString ''prod'') =
      dquote # strconv_escape plain_ext ''prod'' @ [dquote]"
    using p by blast
  then have f: "format_value plain_ext (VString ''prod'') = dquote # ''prod'' @ [dquote]"
    by (simp add: e)
  have "truncate_value plain_options (format_value plain_ext (VString ''prod'')) =
      Inr (dquote # take (nat (TruncateLength plain_options) - 1)
        (strconv_escape plain_ext ''prod'') @ ''...'')"
    using p c1 by blast
  then have r1: "truncate_value plain_options (format_value plain_ext (VString ''prod'')) =
      Inr (dquote # ''prod...'')"
    by (simp add: e l)
  have "truncate_value plain_options (format_value plain_ext (VString ''ok'')) =
      Inr (dquote # strconv_escape plain_ext ''ok'' @ [dquote])"
    using k c2 by blast
  then have r2: "truncate_value plain_options (format_value plain_ext (VString ''ok'')) =
      Inr (dquote # ''ok'' @ [dquote])"
    by (simp add: e)
  show ?thesis
    using t n f c1 r1 c2 r2 by (intro conjI)
qed

text \<open>
  The claim as it is written fails when the limit is 0: nothing of the quoted string is
  kept, the opening quote no more than the rest.
\<close>

theorem C9_counterexample:
  "Truncates (plain_options\<lparr>TruncateLength := 0\<rparr>) \<and>
   format_value plain_ext (VString ''prod'') = dquote # ''prod'' @ [dquote] \<and>
   int (length (format_value plain_ext (VString ''prod''))) >
     TruncateLength (plain_options\<lparr>TruncateLength := 0\<rparr>) \<and>
   truncate_value (plain_options\<lparr>TruncateLength := 0\<rparr>)
     (format_value plain_ext (VString ''prod'')) = Inr ''...'' \<and>
   take 1 ''...'' \<noteq> [dquote]"
  by (simp add: plain_options_def plain_ext_def format_value_def fmt_q_def truncate_value_def
      slice_to_def dquote_def)

subsection \<open>C10: what \<^verbatim>\<open>TryHandle\<close> leaves behind\<close>

text \<open>
  Claim C10.  When the line holds neither marker, \<^verbatim>\<open>TryHandle\<close> returns false and the
  handler is as it was.  When the line holds a marker and \<^verbatim>\<open>UnmarshalJSON\<close> fails,
  \<^verbatim>\<open>TryHandle\<close> returns false, the record is empty and the diff state is what the fields
  were; these were empty if the handler was new or cleared, and then, in the next line
  that is handled, every field that passes the visibility predicate has its token among
  the tokens, with skip-unchanged enabled.
\<close>

theorem C10_TryHandle_frame:
  assumes h': "h' = snd (TryHandle ext h d)"
  shows "(\<not> bytes_Contains d time_marker \<and> \<not> bytes_Contains d ts_marker \<longrightarrow>
            TryHandle ext h d = (False, h))
       \<and> ((bytes_Contains d time_marker \<or> bytes_Contains d ts_marker) \<and>
           fst (UnmarshalJSON ext h d) \<noteq> None \<longrightarrow>
            \<not> fst (TryHandle ext h d) \<and>
            Level h' = [] \<and> Time h' = time_zero ext \<and> Message h' = [] \<and> Fields h' = [] \<and>
            last_fields h' = Fields h \<and>
            (Fields h = [] \<longrightarrow>
               last_fields h' = [] \<and>
               (\<forall>d2 h2 opts k v sep kv.
                  TryHandle ext h' d2 = (True, h2) \<and> Opts h2 = Some opts \<and>
                  (k, v) \<in> set (Fields h2) \<and> shouldShowKey opts k \<and>
                  joinKVs ext h2 True sep = Inr kv \<longrightarrow>
                  (\<exists>tok. kv_token ext opts sep k v = Inr tok \<and> tok \<in> set kv))))"
proof (intro conjI impI)
  assume "\<not> bytes_Contains d time_marker \<and> \<not> bytes_Contains d ts_marker"
  then show "TryHandle ext h d = (False, h)" by (simp add: TryHandle_def)
next
  assume a: "(bytes_Contains d time_marker \<or> bytes_Contains d ts_marker) \<and>
      fst (UnmarshalJSON ext h d) \<noteq> None"
  then have f: "fst (UnmarshalJSON ext h d) \<noteq> None"
    and p: "bytes_Contains d time_marker \<or> bytes_Contains d ts_marker"
    by simp_all
  from f obtain t where u: "snd (UnmarshalJSON ext h d) = h\<lparr>Time := t\<rparr>"
    using UnmarshalJSON_fails_state by blast
  have c: "h' = clear ext (h\<lparr>Time := t\<rparr>)"
    using TryHandle_fails(2) [OF f p] by (simp add: h' u)
  show "\<not> fst (TryHandle ext h d)" using f by (rule TryHandle_fails(1))
  show "Level h' = []" "Time h' = time_zero ext" "Message h' = []" "Fields h' = []"
    by (simp_all add: c clear_def)
  show l: "last_fields h' = Fields h" by (simp add: c clear_def)
  assume e: "Fields h = []"
  show l': "last_fields h' = []" by (simp add: l e)
  show "\<forall>d2 h2 opts k v sep kv.
      TryHandle ext h' d2 = (True, h2) \<and> Opts h2 = Some opts \<and>
      (k, v) \<in> set (Fields h2) \<and> shouldShowKey opts k \<and>
      joinKVs ext h2 True sep = Inr kv \<longrightarrow>
      (\<exists>tok. kv_token ext opts sep k v = Inr tok \<and> tok \<in> set kv)"
  proof (intro allI impI)
    fix d2 h2 opts k v sep kv
    assume b: "TryHandle ext h' d2 = (True, h2) \<and> Opts h2 = Some opts \<and>
      (k, v) \<in> set (Fields h2) \<and> shouldShowKey opts k \<and>
      joinKVs ext h2 True sep = Inr kv"
    then have t: "fst (TryHandle ext h' d2)" and h2: "h2 = snd (TryHandle ext h' d2)"
      by simp_all
    have "last_fields h2 = []"
      using TryHandle_ok_last_fields [OF t] by (simp add: h2 l')
    then have "\<not> (\<not> shouldShowKey opts k \<or> True \<and> unchanged opts (last_fields h2) k v)"
      using b by (simp add: unchanged_def)
    with b show "\<exists>tok. kv_token ext opts sep k v = Inr tok \<and> tok \<in> set kv"
      using joinKVs_present [of h2 opts ext True sep kv k v] by blast
  qed
qed

theorem C10_TryHandle_frame_witness:
  "\<not> bytes_Contains line_e time_marker \<and> \<not> bytes_Contains line_e ts_marker \<and>
   TryHandle plain_ext state_a_rendered line_e = (False, state_a_rendered) \<and>
   bytes_Contains line_c time_marker \<and>
   fst (UnmarshalJSON plain_ext state_a_rendered line_c) \<noteq> None \<and>
   \<not> fst (TryHandle plain_ext state_a_rendered line_c) \<and>
   Fields state_a_rendered = [] \<and> last_fields state_c = [] \<and> Fields state_c = [] \<and>
   TryHandle plain_ext state_c line_g = (True, state_g) \<and>
   Opts state_g = Some plain_options \<and>
   (''env'', dquote # ''prod'' @ [dquote]) \<in> set (Fields state_g) \<and>
   shouldShowKey plain_options ''env'' \<and>
   joinKVs plain_ext state_g True ''='' = Inr [''env='' @ dquote # ''prod...''] \<and>
   (\<exists>tok. kv_token plain_ext plain_options ''='' ''env'' (dquote # ''prod'' @ [dquote]) = Inr tok \<and>
      tok \<in> set [''env='' @ dquote # ''prod...''])"
proof -
  note e = C10_TryHandle_frame [where ext = plain_ext and h = state_a_rendered and d = line_e,
      OF refl]
  note c = C10_TryHandle_frame [OF state_c_def]
  have pe: "\<not> bytes_Contains line_e time_marker \<and> \<not> bytes_Contains line_e ts_marker"
    by (rule line_e_probe)
  have 1: "TryHandle plain_ext state_a_rendered line_e = (False, state_a_rendered)"
    using e pe by simp
  have 2: "\<not> fst (TryHandle plain_ext state_a_rendered line_c)"
    "last_fields state_c = []" "Fields state_c = []"
    using c line_c_probe line_c_fails state_a_rendered_Fields by simp_all
  have m: "(''env'', dquote # ''prod'' @ [dquote]) \<in> set (Fields state_g)"
    by (simp add: state_g_Fields)
  have s: "shouldShowKey plain_options ''env''"
    by (simp add: plain_options_def)
  have "\<forall>d2 h2 opts k v sep kv.
      TryHandle plain_ext state_c d2 = (True, h2) \<and> Opts h2 = Some opts \<and>
      (k, v) \<in> set (Fields h2) \<and> shouldShowKey opts k \<and>
      joinKVs plain_ext h2 True sep = Inr kv \<longrightarrow>
      (\<exists>tok. kv_token plain_ext opts sep k v = Inr tok \<and> tok \<in> set kv)"
    using c line_c_probe line_c_fails state_a_rendered_Fields by blast
  then have 3: "\<exists>tok. kv_token plain_ext plain_options ''='' ''env'' (dquote # ''prod'' @ [dquote]) = Inr tok \<and>
      tok \<in> set [''env='' @ dquote # ''prod...'']"
    using line_g_TryHandle state_Opts(5) m s state_g_tokens by blast
  show ?thesis
    using pe 1 line_c_probe line_c_fails 2 state_a_rendered_Fields line_g_TryHandle
      state_Opts(5) m s state_g_tokens 3
    by (intro conjI) simp_all
qed

end
